theory Spec2Isabelle
  imports Main "HOL-Library.Char_ord"
begin

section \<open>Data model of the chess engine (Chess.ts)\<close>

text \<open>
  The types of \<^verbatim>\<open>Chess.ts\<close>. A piece is a JavaScript object: the engine builds
  pieces by object spread (\<^verbatim>\<open>{...piece, hasMoved: true}\<close>), and a spread of
  \<^verbatim>\<open>null\<close> yields an object with neither \<^verbatim>\<open>type\<close> nor \<^verbatim>\<open>color\<close>, so both
  fields are optional in the model, \<open>None\<close> standing for \<^verbatim>\<open>undefined\<close>. The
  source's \<^verbatim>\<open>===\<close> and \<^verbatim>\<open>!==\<close> on such values are equality and inequality of the
  options. \<^verbatim>\<open>hasMoved\<close> is only ever tested for truthiness, so an absent flag is
  \<open>False\<close>.
\<close>

datatype color = White | Black

datatype pieceType = Pawn | Knight | Bishop | Rook | Queen | King

datatype promo = PKnight | PBishop | PRook | PQueen

datatype castleSide = Kingside | Queenside

record chessPiece =
  ptype :: "pieceType option"
  pcolor :: "color option"
  hasMoved :: bool

text \<open>
  \<^verbatim>\<open>ChessBoard = Array<Array<ChessPiece | null>>\<close>: a list of rows; \<open>None\<close> is
  \<^verbatim>\<open>null\<close>. A square is the pair (row, column).
\<close>

type_synonym board = "chessPiece option list list"

type_synonym square = "int \<times> int"

record chessMove =
  mFrom :: square
  mTo :: square
  promotion :: "promo option"
  isCapture :: "bool option"
  isCheck :: bool
  isCheckmateFlag :: bool
  isCastle :: "castleSide option"
  isEnPassant :: bool

record moveResult =
  valid :: bool
  error :: "string option"
  resMove :: "chessMove option"
  newBoard :: "board option"
  inCheck :: "color option"
  resCheckmate :: "bool option"
  resStalemate :: "bool option"
  resDraw :: "bool option"

datatype jsError = TypeError

definition promoType :: "promo \<Rightarrow> pieceType" where
  "promoType p = (case p of PKnight \<Rightarrow> Knight | PBishop \<Rightarrow> Bishop | PRook \<Rightarrow> Rook | PQueen \<Rightarrow> Queen)"

subsection \<open>Reading and writing squares\<close>

definition wfBoard :: "board \<Rightarrow> bool" where
  "wfBoard b = (length b = 8 \<and> list_all (\<lambda>r. length r = 8) b)"

definition inBounds :: "int \<Rightarrow> int \<Rightarrow> bool" where
  "inBounds r c = (0 \<le> r \<and> r < 8 \<and> 0 \<le> c \<and> c < 8)"

text \<open>
  \<open>isRow b r\<close>: \<open>r\<close> is the index of a row of the board, so that \<^verbatim>\<open>board[r]\<close> is an
  array. \<open>cell b r c\<close> is the read \<^verbatim>\<open>board[r]?.[c]\<close>: an index that is no row of the
  board, or a column outside the row, reads \<^verbatim>\<open>undefined\<close>, which the engine only
  tests for truthiness. The plain read \<^verbatim>\<open>board[r][c]\<close> is the same for a row of the
  board and raises a \<^verbatim>\<open>TypeError\<close> otherwise. Inside the engine every computed row is
  one of \<open>0..7\<close> or tested against them before it is read, so on a board of at least
  eight rows these reads do not raise; \<^verbatim>\<open>getValidMoves\<close> and \<^verbatim>\<open>makeMove\<close>, which
  read at an argument, carry the error branch themselves. On a board of fewer than eight
  rows the engine's loops over the rows \<open>0..7\<close> raise as well, which the model does
  not follow; the boards of the data model have eight rows.
\<close>

definition isRow :: "board \<Rightarrow> int \<Rightarrow> bool" where
  "isRow b r = (0 \<le> r \<and> r < int (length b))"

definition readRow :: "'a option list \<Rightarrow> nat \<Rightarrow> 'a option" where
  "readRow row k = (if k < length row then row ! k else None)"

definition cell :: "board \<Rightarrow> int \<Rightarrow> int \<Rightarrow> chessPiece option" where
  "cell b r c = (if isRow b r \<and> 0 \<le> c then readRow (b ! nat r) (nat c) else None)"

text \<open>
  \<open>put b r c v\<close> is the write \<^verbatim>\<open>board[r][c] = v\<close> for a row \<open>r\<close> of the board. A
  column past the end extends the row (JavaScript fills the gap with holes); a negative
  column sets a property that is no element of the array.
\<close>

definition writeRow :: "'a option list \<Rightarrow> nat \<Rightarrow> 'a option \<Rightarrow> 'a option list" where
  "writeRow row k v =
     (if k < length row then row[k := v] else row @ replicate (k - length row) None @ [v])"

definition put :: "board \<Rightarrow> int \<Rightarrow> int \<Rightarrow> chessPiece option \<Rightarrow> board" where
  "put b r c v = (if c < 0 then b else b[nat r := writeRow (b ! nat r) (nat c) v])"

definition allSquares :: "square list" where
  "allSquares = concat (map (\<lambda>r. map (\<lambda>c. (r, c)) [0..7]) [0..7])"

definition hasPiece :: "board \<Rightarrow> int \<Rightarrow> int \<Rightarrow> pieceType \<Rightarrow> color option \<Rightarrow> bool" where
  "hasPiece b r c t co =
     (case cell b r c of None \<Rightarrow> False | Some piece \<Rightarrow> ptype piece = Some t \<and> pcolor piece = co)"

definition opponentOf :: "color option \<Rightarrow> color option" where
  "opponentOf co = (if co = Some White then Some Black else Some White)"

section \<open>Attack detection (ChessLogic.ts, isSquareUnderAttack)\<close>

definition knightOffsets :: "(int \<times> int) list" where
  "knightOffsets = [(-2, -1), (-2, 1), (-1, -2), (-1, 2), (1, -2), (1, 2), (2, -1), (2, 1)]"

definition directions :: "(int \<times> int) list" where
  "directions = [(-1, -1), (-1, 0), (-1, 1), (0, -1), (0, 1), (1, -1), (1, 0), (1, 1)]"

text \<open>
  The inner \<^verbatim>\<open>while\<close> loop of the sliding test, for one direction, from the square
  \<open>(newRow, newCol)\<close> on. The source only walks the eight literal directions; the test
  \<open>dr \<noteq> 0 \<or> dc \<noteq> 0\<close> holds at each of them and makes the recursion well-founded.
\<close>

function slideAttack :: "board \<Rightarrow> color option \<Rightarrow> int \<Rightarrow> int \<Rightarrow> int \<Rightarrow> int \<Rightarrow> bool" where
  "slideAttack b byColor dr dc newRow newCol =
     (if inBounds newRow newCol \<and> (dr \<noteq> 0 \<or> dc \<noteq> 0) then
        (case cell b newRow newCol of
           Some piece \<Rightarrow>
             pcolor piece = byColor \<and>
             (((dr \<noteq> 0 \<and> dc \<noteq> 0) \<and> (ptype piece = Some Bishop \<or> ptype piece = Some Queen)) \<or>
              ((dr = 0 \<or> dc = 0) \<and> (ptype piece = Some Rook \<or> ptype piece = Some Queen)))
         | None \<Rightarrow> slideAttack b byColor dr dc (newRow + dr) (newCol + dc))
      else False)"
  by pat_completeness auto
termination
  by (relation "measure (\<lambda>(b, byColor, dr, dc, r, c).
        if dr > 0 then nat (8 - r) else if dr < 0 then nat (r + 1)
        else if dc > 0 then nat (8 - c) else nat (c + 1))")
     (auto simp: inBounds_def)

definition pawnAttack :: "board \<Rightarrow> int \<Rightarrow> int \<Rightarrow> color option \<Rightarrow> bool" where
  "pawnAttack b row col byColor =
     (let pawnDirection = (if byColor = Some White then 1 else -1 :: int) in
      if row - pawnDirection \<ge> 0 \<and> row - pawnDirection < 8 then
        (if col - 1 \<ge> 0 \<and> hasPiece b (row - pawnDirection) (col - 1) Pawn byColor then True
         else if col + 1 < 8 \<and> hasPiece b (row - pawnDirection) (col + 1) Pawn byColor then True
         else False)
      else False)"

definition knightAttack :: "board \<Rightarrow> int \<Rightarrow> int \<Rightarrow> color option \<Rightarrow> bool" where
  "knightAttack b row col byColor =
     list_ex (\<lambda>(dr, dc). inBounds (row + dr) (col + dc) \<and> hasPiece b (row + dr) (col + dc) Knight byColor)
       knightOffsets"

definition lineAttack :: "board \<Rightarrow> int \<Rightarrow> int \<Rightarrow> color option \<Rightarrow> bool" where
  "lineAttack b row col byColor =
     list_ex (\<lambda>(dr, dc). slideAttack b byColor dr dc (row + dr) (col + dc)) directions"

definition kingAttack :: "board \<Rightarrow> int \<Rightarrow> int \<Rightarrow> color option \<Rightarrow> bool" where
  "kingAttack b row col byColor =
     list_ex (\<lambda>(dr, dc). inBounds (row + dr) (col + dc) \<and> hasPiece b (row + dr) (col + dc) King byColor)
       directions"

definition isSquareUnderAttack :: "board \<Rightarrow> int \<Rightarrow> int \<Rightarrow> color option \<Rightarrow> bool" where
  "isSquareUnderAttack b row col byColor =
     (if pawnAttack b row col byColor then True
      else if knightAttack b row col byColor then True
      else if lineAttack b row col byColor then True
      else if kingAttack b row col byColor then True
      else False)"

section \<open>Check detection (isInCheck)\<close>

text \<open>
  The two nested loops with their \<^verbatim>\<open>break\<close>s stop at the first king of the colour in
  row-major order; a board without such a king is reported as not in check.
\<close>

definition isInCheck :: "board \<Rightarrow> color option \<Rightarrow> bool" where
  "isInCheck b color =
     (case find (\<lambda>(r, c). hasPiece b r c King color) allSquares of
        None \<Rightarrow> False
      | Some (kingRow, kingCol) \<Rightarrow> isSquareUnderAttack b kingRow kingCol (opponentOf color))"

section \<open>Hypothetical-move test (wouldBeInCheck)\<close>

text \<open>
  \<^verbatim>\<open>JSON.parse(JSON.stringify(board))\<close> copies the board; the model's boards are values,
  so the copy is the board itself. The function is called on generated moves only, whose
  squares lie on the board.
\<close>

definition wouldBeInCheck :: "board \<Rightarrow> chessMove \<Rightarrow> color option \<Rightarrow> bool" where
  "wouldBeInCheck b move color =
     (let piece = cell b (fst (mFrom move)) (snd (mFrom move));
          t1 = put b (fst (mTo move)) (snd (mTo move)) piece;
          t2 = put t1 (fst (mFrom move)) (snd (mFrom move)) None;
          rookRow = (if color = Some White then 7 else 0);
          t3 = (case isCastle move of
                  None \<Rightarrow> t2
                | Some Kingside \<Rightarrow> put (put t2 rookRow 5 (cell t2 rookRow 7)) rookRow 7 None
                | Some Queenside \<Rightarrow> put (put t2 rookRow 3 (cell t2 rookRow 0)) rookRow 0 None);
          t4 = (if isEnPassant move then put t3 (fst (mFrom move)) (snd (mTo move)) None else t3)
      in isInCheck t4 color)"

section \<open>Pseudo-legal move generators\<close>

text \<open>
  Each generator of the source appends to the list \<^verbatim>\<open>moves\<close>, which
  \<^verbatim>\<open>getValidMoves\<close> creates empty; the model returns the appended moves.
\<close>

definition basicMove :: "square \<Rightarrow> square \<Rightarrow> chessMove" where
  "basicMove f t =
     \<lparr>mFrom = f, mTo = t, promotion = None, isCapture = None, isCheck = False,
      isCheckmateFlag = False, isCastle = None, isEnPassant = False\<rparr>"

definition getPawnMoves :: "board \<Rightarrow> int \<Rightarrow> int \<Rightarrow> chessPiece \<Rightarrow> chessMove list" where
  "getPawnMoves b row col piece =
     (let direction = (if pcolor piece = Some White then -1 else 1 :: int);
          startRow = (if pcolor piece = Some White then 6 else 1 :: int);
          forward =
            (if row + direction \<ge> 0 \<and> row + direction < 8 \<and> cell b (row + direction) col = None then
               basicMove (row, col) (row + direction, col) #
               (if row = startRow \<and> cell b (row + 2 * direction) col = None
                then [basicMove (row, col) (row + 2 * direction, col)] else [])
             else []);
          captures =
            concat (map (\<lambda>dc.
              if col + dc \<ge> 0 \<and> col + dc < 8 then
                (case cell b (row + direction) (col + dc) of
                   Some target \<Rightarrow>
                     if pcolor target \<noteq> pcolor piece
                     then [(basicMove (row, col) (row + direction, col + dc))\<lparr>isCapture := Some True\<rparr>]
                     else []
                 | None \<Rightarrow> [])
              else []) [-1, 1]);
          promotionRow = (if pcolor piece = Some White then 0 else 7 :: int)
      in map (\<lambda>move. if fst (mTo move) = promotionRow then move\<lparr>promotion := Some PQueen\<rparr> else move)
           (forward @ captures))"

definition getKnightMoves :: "board \<Rightarrow> int \<Rightarrow> int \<Rightarrow> chessPiece \<Rightarrow> chessMove list" where
  "getKnightMoves b row col piece =
     concat (map (\<lambda>(dr, dc).
       let newRow = row + dr; newCol = col + dc in
       if inBounds newRow newCol then
         (case cell b newRow newCol of
            None \<Rightarrow> [(basicMove (row, col) (newRow, newCol))\<lparr>isCapture := Some False\<rparr>]
          | Some target \<Rightarrow>
              if pcolor target \<noteq> pcolor piece
              then [(basicMove (row, col) (newRow, newCol))\<lparr>isCapture := Some True\<rparr>]
              else [])
       else []) knightOffsets)"

text \<open>The inner loop of \<^verbatim>\<open>getSlidingMoves\<close> for one direction.\<close>

function slideMoves :: "board \<Rightarrow> int \<Rightarrow> int \<Rightarrow> chessPiece \<Rightarrow> int \<Rightarrow> int \<Rightarrow> int \<Rightarrow> int \<Rightarrow> chessMove list" where
  "slideMoves b row col piece dr dc newRow newCol =
     (if inBounds newRow newCol \<and> (dr \<noteq> 0 \<or> dc \<noteq> 0) then
        (case cell b newRow newCol of
           None \<Rightarrow>
             basicMove (row, col) (newRow, newCol) #
             slideMoves b row col piece dr dc (newRow + dr) (newCol + dc)
         | Some target \<Rightarrow>
             if pcolor target \<noteq> pcolor piece
             then [(basicMove (row, col) (newRow, newCol))\<lparr>isCapture := Some True\<rparr>]
             else [])
      else [])"
  by pat_completeness auto
termination
  by (relation "measure (\<lambda>(b, row, col, piece, dr, dc, r, c).
        if dr > 0 then nat (8 - r) else if dr < 0 then nat (r + 1)
        else if dc > 0 then nat (8 - c) else nat (c + 1))")
     (auto simp: inBounds_def)

definition getSlidingMoves ::
  "board \<Rightarrow> int \<Rightarrow> int \<Rightarrow> chessPiece \<Rightarrow> (int \<times> int) list \<Rightarrow> chessMove list" where
  "getSlidingMoves b row col piece dirs =
     concat (map (\<lambda>(dr, dc). slideMoves b row col piece dr dc (row + dr) (col + dc)) dirs)"

definition getBishopMoves :: "board \<Rightarrow> int \<Rightarrow> int \<Rightarrow> chessPiece \<Rightarrow> chessMove list" where
  "getBishopMoves b row col piece =
     getSlidingMoves b row col piece [(-1, -1), (-1, 1), (1, -1), (1, 1)]"

definition getRookMoves :: "board \<Rightarrow> int \<Rightarrow> int \<Rightarrow> chessPiece \<Rightarrow> chessMove list" where
  "getRookMoves b row col piece =
     getSlidingMoves b row col piece [(-1, 0), (1, 0), (0, -1), (0, 1)]"

definition getQueenMoves :: "board \<Rightarrow> int \<Rightarrow> int \<Rightarrow> chessPiece \<Rightarrow> chessMove list" where
  "getQueenMoves b row col piece =
     getSlidingMoves b row col piece
       [(-1, -1), (-1, 0), (-1, 1), (0, -1), (0, 1), (1, -1), (1, 0), (1, 1)]"

text \<open>
  The king: the eight neighbours, each kept when the king standing there (and gone from
  its own square) is not attacked; then castling. \<open>kingStep b row col piece c\<close> is the
  test board of the castling loops: the king put on column \<open>c\<close> of its row. The path
  test of the castling loops is \<^verbatim>\<open>board[rookRow][c] !== null\<close>, the one test of the
  engine that tells \<^verbatim>\<open>null\<close> from \<^verbatim>\<open>undefined\<close>. It reads the columns \<open>5, 6\<close> and
  \<open>3, 2, 1\<close>, which on rows of eight squares hold a piece or \<^verbatim>\<open>null\<close>, the model's
  \<open>None\<close>; on a shorter row the source reads \<^verbatim>\<open>undefined\<close> there and offers no
  castle.
\<close>

definition kingStep :: "board \<Rightarrow> int \<Rightarrow> int \<Rightarrow> chessPiece \<Rightarrow> int \<Rightarrow> int \<Rightarrow> board" where
  "kingStep b row col piece newRow newCol = put (put b newRow newCol (Some piece)) row col None"

definition castleKingside :: "board \<Rightarrow> int \<Rightarrow> int \<Rightarrow> chessPiece \<Rightarrow> chessMove list" where
  "castleKingside b row col piece =
     (let rookRow = row; rookCol = 7 in
      case cell b rookRow rookCol of
        None \<Rightarrow> []
      | Some rook \<Rightarrow>
          if ptype rook = Some Rook \<and> pcolor rook = pcolor piece \<and> \<not> hasMoved rook then
            (if list_all (\<lambda>c. cell b rookRow c = None \<and>
                    (c \<le> col + 2 \<longrightarrow>
                       \<not> isSquareUnderAttack (kingStep b row col piece rookRow c) rookRow c
                           (opponentOf (pcolor piece))))
                  [col + 1 .. rookCol - 1]
             then [(basicMove (row, col) (row, col + 2))\<lparr>isCastle := Some Kingside\<rparr>]
             else [])
          else [])"

definition castleQueenside :: "board \<Rightarrow> int \<Rightarrow> int \<Rightarrow> chessPiece \<Rightarrow> chessMove list" where
  "castleQueenside b row col piece =
     (let rookRow = row; rookCol = 0 in
      case cell b rookRow rookCol of
        None \<Rightarrow> []
      | Some rook \<Rightarrow>
          if ptype rook = Some Rook \<and> pcolor rook = pcolor piece \<and> \<not> hasMoved rook then
            (if list_all (\<lambda>c. cell b rookRow c = None \<and>
                    (c \<ge> col - 2 \<longrightarrow>
                       \<not> isSquareUnderAttack (kingStep b row col piece rookRow c) rookRow c
                           (opponentOf (pcolor piece))))
                  (rev [rookCol + 1 .. col - 1])
             then [(basicMove (row, col) (row, col - 2))\<lparr>isCastle := Some Queenside\<rparr>]
             else [])
          else [])"

definition getKingMoves :: "board \<Rightarrow> int \<Rightarrow> int \<Rightarrow> chessPiece \<Rightarrow> chessMove list" where
  "getKingMoves b row col piece =
     concat (map (\<lambda>(dr, dc).
       let newRow = row + dr; newCol = col + dc in
       if inBounds newRow newCol then
         (case cell b newRow newCol of
            Some targetPiece \<Rightarrow>
              if pcolor targetPiece \<noteq> pcolor piece \<and>
                 \<not> isSquareUnderAttack (kingStep b row col piece newRow newCol) newRow newCol
                     (opponentOf (pcolor piece))
              then [basicMove (row, col) (newRow, newCol)] else []
          | None \<Rightarrow>
              if \<not> isSquareUnderAttack (kingStep b row col piece newRow newCol) newRow newCol
                     (opponentOf (pcolor piece))
              then [basicMove (row, col) (newRow, newCol)] else [])
       else []) directions)
     @ (if \<not> hasMoved piece \<and> \<not> isInCheck b (pcolor piece) then
          (if col = 4 then castleKingside b row col piece else [])
          @ (if col = 4 then castleQueenside b row col piece else [])
        else [])"

section \<open>Legal moves (getValidMoves)\<close>

text \<open>
  \<^verbatim>\<open>board[row][col]\<close> is read before anything else: an index that is no row of the
  board makes the read raise, a column outside the row reads \<^verbatim>\<open>undefined\<close> and the
  result is the empty list. A piece without a type matches no case of the \<^verbatim>\<open>switch\<close>.
\<close>

definition getValidMoves :: "board \<Rightarrow> int \<Rightarrow> int \<Rightarrow> jsError + chessMove list" where
  "getValidMoves b row col =
     (if \<not> isRow b row then Inl TypeError
      else case cell b row col of
        None \<Rightarrow> Inr []
      | Some piece \<Rightarrow>
          Inr (filter (\<lambda>move. \<not> wouldBeInCheck b move (pcolor piece))
                 (case ptype piece of
                    None \<Rightarrow> []
                  | Some Pawn \<Rightarrow> getPawnMoves b row col piece
                  | Some Knight \<Rightarrow> getKnightMoves b row col piece
                  | Some Bishop \<Rightarrow> getBishopMoves b row col piece
                  | Some Rook \<Rightarrow> getRookMoves b row col piece
                  | Some Queen \<Rightarrow> getQueenMoves b row col piece
                  | Some King \<Rightarrow> getKingMoves b row col piece)))"

section \<open>Checkmate and stalemate\<close>

text \<open>
  The loop shared by \<^verbatim>\<open>isCheckmate\<close> and \<^verbatim>\<open>isStalemate\<close>: it returns
  \<^verbatim>\<open>false\<close> at the first piece of the colour that has a legal move, and \<^verbatim>\<open>true\<close>
  when it runs to the end. An error of \<^verbatim>\<open>getValidMoves\<close> would propagate.
\<close>

fun noMovesLoop :: "board \<Rightarrow> color option \<Rightarrow> square list \<Rightarrow> jsError + bool" where
  "noMovesLoop b color [] = Inr True"
| "noMovesLoop b color ((r, c) # sqs) =
     (case cell b r c of
        None \<Rightarrow> noMovesLoop b color sqs
      | Some piece \<Rightarrow>
          if pcolor piece = color then
            (case getValidMoves b r c of
               Inl e \<Rightarrow> Inl e
             | Inr moves \<Rightarrow> if length moves > 0 then Inr False else noMovesLoop b color sqs)
          else noMovesLoop b color sqs)"

definition isCheckmate :: "board \<Rightarrow> color option \<Rightarrow> jsError + bool" where
  "isCheckmate b color =
     (if \<not> isInCheck b color then Inr False else noMovesLoop b color allSquares)"

definition isStalemate :: "board \<Rightarrow> color option \<Rightarrow> jsError + bool" where
  "isStalemate b color =
     (if isInCheck b color then Inr False else noMovesLoop b color allSquares)"

section \<open>Insufficient material\<close>

text \<open>
  The pieces of the board in row-major order; every piece that is not white goes to
  \<^verbatim>\<open>blackPieces\<close>.
\<close>

definition piecesOf :: "board \<Rightarrow> chessPiece list" where
  "piecesOf b = List.map_filter (\<lambda>(r, c). cell b r c) allSquares"

definition isDrawByInsufficientMaterial :: "board \<Rightarrow> bool" where
  "isDrawByInsufficientMaterial b =
     (let whitePieces = filter (\<lambda>p. pcolor p = Some White) (piecesOf b);
          blackPieces = filter (\<lambda>p. pcolor p \<noteq> Some White) (piecesOf b) in
      if length whitePieces = 1 \<and> length blackPieces = 1 then True
      else if (length whitePieces = 2 \<and> length blackPieces = 1) \<or>
              (length whitePieces = 1 \<and> length blackPieces = 2) then
        (let morePieces = (if length whitePieces > length blackPieces then whitePieces else blackPieces) in
         case find (\<lambda>p. ptype p \<noteq> Some King) morePieces of
           None \<Rightarrow> False
         | Some secondPiece \<Rightarrow> ptype secondPiece = Some Bishop \<or> ptype secondPiece = Some Knight)
      else if length whitePieces = 2 \<and> length blackPieces = 2 then
        (case (find (\<lambda>p. ptype p = Some Bishop) whitePieces,
               find (\<lambda>p. ptype p = Some Bishop) blackPieces) of
           (Some whiteBishop, Some blackBishop) \<Rightarrow> True
         | _ \<Rightarrow> False)
      else False)"

section \<open>Applying a move (makeMove)\<close>

definition handleCastle :: "board \<Rightarrow> chessMove \<Rightarrow> board" where
  "handleCastle b move =
     (let row = fst (mFrom move);
          rookCol = (if isCastle move = Some Kingside then 7 else 0);
          newRookCol = (if isCastle move = Some Kingside then snd (mTo move) - 1 else snd (mTo move) + 1);
          moved = (case cell b row rookCol of
                     Some rook \<Rightarrow> rook\<lparr>hasMoved := True\<rparr>
                   | None \<Rightarrow> \<lparr>ptype = None, pcolor = None, hasMoved = True\<rparr>)
      in put (put b row newRookCol (Some moved)) row rookCol None)"

definition handleEnPassant :: "board \<Rightarrow> chessMove \<Rightarrow> board" where
  "handleEnPassant b move = put b (fst (mFrom move)) (snd (mTo move)) None"

text \<open>The board after the move, before any status is computed.\<close>

definition movedBoard :: "board \<Rightarrow> chessMove \<Rightarrow> chessPiece \<Rightarrow> board" where
  "movedBoard b move piece =
     (let n1 = put b (fst (mTo move)) (snd (mTo move)) (Some (piece\<lparr>hasMoved := True\<rparr>));
          n2 = put n1 (fst (mFrom move)) (snd (mFrom move)) None;
          n3 = (if isCastle move \<noteq> None then handleCastle n2 move else n2);
          n4 = (if isEnPassant move then handleEnPassant n3 move else n3)
      in case promotion move of
           None \<Rightarrow> n4
         | Some p \<Rightarrow>
             put n4 (fst (mTo move)) (snd (mTo move))
               (Some \<lparr>ptype = Some (promoType p), pcolor = pcolor piece, hasMoved = True\<rparr>))"

text \<open>
  \<^verbatim>\<open>makeMove\<close>. The read \<^verbatim>\<open>board[move.from.row][...]\<close> and the write
  \<^verbatim>\<open>newBoard[move.to.row][...] = ...\<close> raise a \<^verbatim>\<open>TypeError\<close> when the index is
  not a row of the board (the copy \<^verbatim>\<open>newBoard\<close> has the rows of \<^verbatim>\<open>board\<close>); a
  column outside the row reads \<^verbatim>\<open>undefined\<close> (no piece).
\<close>

definition makeMove :: "board \<Rightarrow> chessMove \<Rightarrow> jsError + moveResult" where
  "makeMove b move =
     (if \<not> isRow b (fst (mFrom move)) then Inl TypeError
      else case cell b (fst (mFrom move)) (snd (mFrom move)) of
        None \<Rightarrow>
          Inr \<lparr>valid = False, error = Some ''No piece at the source position'', resMove = None,
               newBoard = None, inCheck = None, resCheckmate = None, resStalemate = None,
               resDraw = None\<rparr>
      | Some piece \<Rightarrow>
          if \<not> isRow b (fst (mTo move)) then Inl TypeError
          else
            (let nb = movedBoard b move piece;
                 opponentColor = opponentOf (pcolor piece);
                 check = isInCheck nb opponentColor in
             case (if check then isCheckmate nb opponentColor else Inr False) of
               Inl e \<Rightarrow> Inl e
             | Inr mate \<Rightarrow>
                 (case (if \<not> check then isStalemate nb opponentColor else Inr False) of
                    Inl e \<Rightarrow> Inl e
                  | Inr stale \<Rightarrow>
                      Inr \<lparr>valid = True, error = None, resMove = Some move, newBoard = Some nb,
                           inCheck = (if check then opponentColor else None),
                           resCheckmate = Some mate, resStalemate = Some stale,
                           resDraw = Some (isDrawByInsufficientMaterial nb)\<rparr>)))"

text \<open>The board a call of \<^verbatim>\<open>makeMove\<close> returns, if it returns one.\<close>

definition madeBoard :: "board \<Rightarrow> chessMove \<Rightarrow> board option" where
  "madeBoard b move = (case makeMove b move of Inl e \<Rightarrow> None | Inr res \<Rightarrow> newBoard res)"

section \<open>Notation (moveToAlgebraic)\<close>

text \<open>
  The JavaScript values the function computes with: indexing a string outside it gives
  \<^verbatim>\<open>undefined\<close>, and \<^verbatim>\<open>+\<close> concatenates when one operand is a string and is
  \<^verbatim>\<open>NaN\<close> otherwise.
\<close>

datatype jsValue = Str string | Undefined | NaN

definition charAtIndex :: "string \<Rightarrow> int \<Rightarrow> jsValue" where
  "charAtIndex s i = (if 0 \<le> i \<and> nat i < length s then Str [s ! nat i] else Undefined)"

definition toJsString :: "jsValue \<Rightarrow> string" where
  "toJsString v = (case v of Str s \<Rightarrow> s | Undefined \<Rightarrow> ''undefined'' | NaN \<Rightarrow> ''NaN'')"

definition jsPlus :: "jsValue \<Rightarrow> jsValue \<Rightarrow> jsValue" where
  "jsPlus x y =
     (case (x, y) of
        (Str s, _) \<Rightarrow> Str (s @ toJsString y)
      | (_, Str t) \<Rightarrow> Str (toJsString x @ t)
      | _ \<Rightarrow> NaN)"

definition promoName :: "promo \<Rightarrow> string" where
  "promoName p = (case p of PKnight \<Rightarrow> ''knight'' | PBishop \<Rightarrow> ''bishop'' | PRook \<Rightarrow> ''rook'' | PQueen \<Rightarrow> ''queen'')"

definition toUpperCase :: "string \<Rightarrow> string" where
  "toUpperCase s =
     map (\<lambda>ch. if CHR ''a'' \<le> ch \<and> ch \<le> CHR ''z'' then char_of (of_char ch - (32 :: nat)) else ch) s"

definition moveToAlgebraic :: "chessMove \<Rightarrow> string" where
  "moveToAlgebraic move =
     (let files = ''abcdefgh''; ranks = ''87654321'';
          fromSquare = jsPlus (charAtIndex files (snd (mFrom move))) (charAtIndex ranks (fst (mFrom move)));
          toSquare = jsPlus (charAtIndex files (snd (mTo move))) (charAtIndex ranks (fst (mTo move)))
      in if isCastle move = Some Kingside then ''O-O''
         else if isCastle move = Some Queenside then ''O-O-O''
         else toJsString (jsPlus (Str []) (jsPlus fromSquare toSquare))
              @ (case promotion move of None \<Rightarrow> [] | Some p \<Rightarrow> ''='' @ toUpperCase (take 1 (promoName p)))
              @ (if isCheck move then ''+'' else [])
              @ (if isCheckmateFlag move then ''#'' else []))"

section \<open>The initial position (ChessGame.tsx, initialBoard)\<close>

definition pc :: "pieceType \<Rightarrow> color \<Rightarrow> chessPiece option" where
  "pc t co = Some \<lparr>ptype = Some t, pcolor = Some co, hasMoved = False\<rparr>"

definition initialBoard :: board where
  "initialBoard =
     [[pc Rook Black, pc Knight Black, pc Bishop Black, pc Queen Black,
       pc King Black, pc Bishop Black, pc Knight Black, pc Rook Black],
      replicate 8 (pc Pawn Black),
      replicate 8 None, replicate 8 None, replicate 8 None, replicate 8 None,
      replicate 8 (pc Pawn White),
      [pc Rook White, pc Knight White, pc Bishop White, pc Queen White,
       pc King White, pc Bishop White, pc Knight White, pc Rook White]]"

section \<open>Example positions\<close>

definition emptyBoard :: board where
  "emptyBoard = replicate 8 (replicate 8 None)"

definition boardOf :: "(square \<times> chessPiece option) list \<Rightarrow> board" where
  "boardOf ps = fold (\<lambda>((r, c), p) b. put b r c p) ps emptyBoard"

text \<open>White rook a1, kings on e1 and e8: the rook checks from a8.\<close>

definition rookCheckBoard :: board where
  "rookCheckBoard =
     boardOf [((0, 4), pc King Black), ((7, 4), pc King White), ((7, 0), pc Rook White)]"

text \<open>Black king a8, white king b6, white queen c6: the queen stalemates from c7.\<close>

definition queenStalemateBoard :: board where
  "queenStalemateBoard =
     boardOf [((0, 0), pc King Black), ((2, 1), pc King White), ((2, 2), pc Queen White)]"

text \<open>White pawn a7, kings on e1 and e8.\<close>

definition pawnA7Board :: board where
  "pawnA7Board =
     boardOf [((0, 4), pc King Black), ((7, 4), pc King White), ((1, 0), pc Pawn White)]"

text \<open>The same with the pawn, marked as moved, on a8.\<close>

definition pawnA8Board :: board where
  "pawnA8Board =
     boardOf [((0, 4), pc King Black), ((7, 4), pc King White),
              ((0, 0), Some \<lparr>ptype = Some Pawn, pcolor = Some White, hasMoved = True\<rparr>)]"

section \<open>Notions of the specification\<close>

text \<open>The far rank of a colour, as \<^verbatim>\<open>promotionRow\<close> in \<^verbatim>\<open>getPawnMoves\<close>.\<close>

definition promotionRow :: "color option \<Rightarrow> int" where
  "promotionRow co = (if co = Some White then 0 else 7)"

text \<open>
  The notation as the specification words it: columns \<open>0..7\<close> are the files
  \<open>a..h\<close>, rows \<open>0..7\<close> the ranks \<open>8..1\<close>, a promotion adds \<open>=\<close> and the
  capital initial of the piece, the check flag adds \<open>+\<close>, the checkmate flag \<open>#\<close>.
\<close>

definition fileLetter :: "int \<Rightarrow> char" where
  "fileLetter c = char_of (97 + nat c)"

definition rankDigit :: "int \<Rightarrow> char" where
  "rankDigit r = char_of (56 - nat r)"

definition promoLetter :: "promo \<Rightarrow> char" where
  "promoLetter p = (case p of PKnight \<Rightarrow> CHR ''K'' | PBishop \<Rightarrow> CHR ''B'' | PRook \<Rightarrow> CHR ''R'' | PQueen \<Rightarrow> CHR ''Q'')"

definition notationSpec :: "chessMove \<Rightarrow> string" where
  "notationSpec move =
     (if isCastle move = Some Kingside then ''O-O''
      else if isCastle move = Some Queenside then ''O-O-O''
      else [fileLetter (snd (mFrom move)), rankDigit (fst (mFrom move)),
            fileLetter (snd (mTo move)), rankDigit (fst (mTo move))]
           @ (case promotion move of None \<Rightarrow> [] | Some p \<Rightarrow> [CHR ''='', promoLetter p])
           @ (if isCheck move then ''+'' else [])
           @ (if isCheckmateFlag move then ''#'' else []))"

text \<open>
  Material, as the specification counts it: the number of kings of a colour, the types
  of its other pieces, and the four configurations called insufficient.
\<close>

definition kingCount :: "board \<Rightarrow> color \<Rightarrow> nat" where
  "kingCount b co =
     length (filter (\<lambda>p. pcolor p = Some co \<and> ptype p = Some King) (piecesOf b))"






text \<open>
  Castling, as the specification words it: the back rank of a colour, the rook's home
  column, the columns between king and rook, the columns the king crosses, where king
  and rook end, and the move that \<^verbatim>\<open>getKingMoves\<close> pushes.
\<close>

definition castleMove :: "int \<Rightarrow> castleSide \<Rightarrow> chessMove" where
  "castleMove row side =
     (basicMove (row, 4) (row, if side = Kingside then 6 else 2))\<lparr>isCastle := Some side\<rparr>"

definition backRank :: "color \<Rightarrow> int" where
  "backRank co = (if co = White then 7 else 0)"

definition rookHome :: "castleSide \<Rightarrow> int" where
  "rookHome side = (if side = Kingside then 7 else 0)"

definition kingDest :: "castleSide \<Rightarrow> int" where
  "kingDest side = (if side = Kingside then 6 else 2)"

definition rookDest :: "castleSide \<Rightarrow> int" where
  "rookDest side = (if side = Kingside then 5 else 3)"

definition betweenCols :: "castleSide \<Rightarrow> int list" where
  "betweenCols side = (if side = Kingside then [5, 6] else [1, 2, 3])"

definition transitCols :: "castleSide \<Rightarrow> int list" where
  "transitCols side = (if side = Kingside then [5, 6] else [3, 2])"

text \<open>
  Two black kings: h8 and an unmoved one on e5 with its rook on h5, a white bishop on d4
  behind it.
\<close>

definition twoKingsBoard :: board where
  "twoKingsBoard =
     boardOf [((0, 7), pc King Black), ((3, 4), pc King Black), ((3, 7), pc Rook Black),
              ((4, 3), pc Bishop White), ((7, 0), pc King White)]"

text \<open>The same after the king of e5 has castled: king g5, rook f5, both moved.\<close>

definition twoKingsCastled :: board where
  "twoKingsCastled =
     boardOf [((0, 7), pc King Black),
              ((3, 6), Some \<lparr>ptype = Some King, pcolor = Some Black, hasMoved = True\<rparr>),
              ((3, 5), Some \<lparr>ptype = Some Rook, pcolor = Some Black, hasMoved = True\<rparr>),
              ((4, 3), pc Bishop White), ((7, 0), pc King White)]"

text \<open>White king e1 with both rooks at home, black king e8.\<close>

definition castleBoard :: board where
  "castleBoard =
     boardOf [((0, 4), pc King Black), ((7, 0), pc Rook White), ((7, 4), pc King White),
              ((7, 7), pc Rook White)]"

text \<open>White king e1 with a white rook e2 pinned by a black rook e8; black king a8.\<close>

definition pinnedRookBoard :: board where
  "pinnedRookBoard =
     boardOf [((0, 0), pc King Black), ((0, 4), pc Rook Black), ((6, 4), pc Rook White),
              ((7, 4), pc King White)]"

section \<open>Notions used in the proofs\<close>

text \<open>
  What the attack test sees of a square: whether it is empty, and the type of a piece of
  the attacking colour. The attack on a square splits into the part read from other rows
  and the part read from the square's own row. A plain move is a move from the given
  square to a square of the board that is neither a castle nor an en-passant move.
\<close>

definition attackView :: "color option \<Rightarrow> chessPiece option \<Rightarrow> pieceType option option" where
  "attackView byColor v =
     (case v of None \<Rightarrow> None | Some p \<Rightarrow> Some (if pcolor p = byColor then ptype p else None))"

definition offRowAttack :: "board \<Rightarrow> int \<Rightarrow> int \<Rightarrow> color option \<Rightarrow> bool" where
  "offRowAttack b row col byColor =
     (pawnAttack b row col byColor \<or> knightAttack b row col byColor \<or>
      list_ex (\<lambda>(dr, dc). slideAttack b byColor dr dc (row + dr) (col + dc))
        (filter (\<lambda>(dr, dc). dr \<noteq> 0) directions) \<or>
      list_ex (\<lambda>(dr, dc). inBounds (row + dr) (col + dc) \<and> hasPiece b (row + dr) (col + dc) King byColor)
        (filter (\<lambda>(dr, dc). dr \<noteq> 0) directions))"

definition rowAttack :: "board \<Rightarrow> int \<Rightarrow> int \<Rightarrow> color option \<Rightarrow> bool" where
  "rowAttack b row col byColor =
     (slideAttack b byColor 0 (-1) row (col - 1) \<or> slideAttack b byColor 0 1 row (col + 1) \<or>
      (inBounds row (col - 1) \<and> hasPiece b row (col - 1) King byColor) \<or>
      (inBounds row (col + 1) \<and> hasPiece b row (col + 1) King byColor))"

definition plainMove :: "int \<Rightarrow> int \<Rightarrow> chessMove \<Rightarrow> bool" where
  "plainMove row col m =
     (mFrom m = (row, col) \<and> inBounds (fst (mTo m)) (snd (mTo m)) \<and> isCastle m = None \<and>
      \<not> isEnPassant m)"

section \<open>Basic facts about boards\<close>

declare slideAttack.simps [simp del] slideMoves.simps [simp del]

lemma length_put: "length (put b r c v) = length b"
  by (simp add: put_def)

lemma wfBoard_length: "wfBoard b \<Longrightarrow> length b = 8"
  by (simp add: wfBoard_def)

lemma isRow_8: "length b = 8 \<Longrightarrow> isRow b r = (0 \<le> r \<and> r < 8)"
  by (auto simp: isRow_def)

lemma cell_8:
  "length b = 8 \<Longrightarrow>
   cell b r c = (if 0 \<le> r \<and> r < 8 \<and> 0 \<le> c then readRow (b ! nat r) (nat c) else None)"
  by (simp add: cell_def isRow_8)

lemma readRow_writeRow:
  "readRow (writeRow row k v) j = (if j = k then v else readRow row j)"
proof (cases "k < length row")
  case True
  then show ?thesis by (auto simp: readRow_def writeRow_def)
next
  case False
  note k = this
  show ?thesis
  proof (cases "j < length row")
    case True
    with k show ?thesis by (auto simp: readRow_def writeRow_def nth_append)
  next
    case False
    note jrow = this
    show ?thesis
    proof (cases "j < k")
      case True
      with jrow have "j - length row < k - length row" by arith
      with True jrow k show ?thesis
        by (simp add: readRow_def writeRow_def nth_append)
    next
      case False
      with jrow k show ?thesis
        by (cases "j = k") (auto simp: readRow_def writeRow_def nth_append)
    qed
  qed
qed

lemma cell_put:
  assumes "length b = 8" "0 \<le> r" "r < 8"
  shows "cell (put b r c v) r' c' = (if r' = r \<and> c' = c \<and> 0 \<le> c then v else cell b r' c')"
proof (cases "c < 0")
  case True
  then show ?thesis by (simp add: put_def)
next
  case False
  note c = this
  show ?thesis
  proof (cases "0 \<le> r' \<and> r' < 8 \<and> 0 \<le> c'")
    case False
    with assms c show ?thesis by (auto simp: cell_8 length_put)
  next
    case True
    note r' = this
    show ?thesis
    proof (cases "r' = r")
      case False
      with r' assms have "nat r' \<noteq> nat r" by auto
      with False c r' assms show ?thesis by (simp add: cell_8 length_put) (simp add: put_def)
    next
      case True
      have eq: "(nat c' = nat c) = (c' = c)"
        using c r' by auto
      from assms have "nat r < length b" by simp
      with True c r' eq assms show ?thesis
        by (simp add: cell_8 length_put) (simp add: put_def readRow_writeRow)
    qed
  qed
qed

lemma set_allSquares: "set allSquares = {(r, c). inBounds r c}"
  by (auto simp: allSquares_def inBounds_def image_iff)

lemma getValidMoves_Inr: "isRow b r \<Longrightarrow> \<exists>ms. getValidMoves b r c = Inr ms"
  by (simp add: getValidMoves_def split: option.split)

lemma noMovesLoop_Inr:
  "\<forall>(r, c) \<in> set sqs. isRow b r \<Longrightarrow> \<exists>x. noMovesLoop b co sqs = Inr x"
proof (induction sqs)
  case Nil
  show ?case by auto
next
  case (Cons sq sqs)
  obtain r c where sq: "sq = (r, c)" by (cases sq)
  with Cons.prems have r: "isRow b r" by auto
  from Cons have ih: "\<exists>x. noMovesLoop b co sqs = Inr x" by auto
  from getValidMoves_Inr[OF r] obtain ms where "getValidMoves b r c = Inr ms" by blast
  with ih show ?case by (auto simp: sq split: option.split)
qed

lemma set_allSquares_rows: "length b = 8 \<Longrightarrow> \<forall>(r, c) \<in> set allSquares. isRow b r"
  by (auto simp: set_allSquares inBounds_def isRow_8)

lemma isCheckmate_Inr: "length b = 8 \<Longrightarrow> \<exists>x. isCheckmate b co = Inr x"
  using noMovesLoop_Inr[OF set_allSquares_rows, of b co] by (auto simp: isCheckmate_def)

lemma isStalemate_Inr: "length b = 8 \<Longrightarrow> \<exists>x. isStalemate b co = Inr x"
  using noMovesLoop_Inr[OF set_allSquares_rows, of b co] by (auto simp: isStalemate_def)

lemma length_handleCastle: "length (handleCastle b m) = length b"
  by (simp add: handleCastle_def Let_def length_put)

lemma length_handleEnPassant: "length (handleEnPassant b m) = length b"
  by (simp add: handleEnPassant_def length_put)

lemma length_movedBoard: "length (movedBoard b m piece) = length b"
  by (simp add: movedBoard_def Let_def length_put length_handleCastle length_handleEnPassant
      split: option.split)

section \<open>Pawn attacks\<close>

lemma pawnAttack_reads:
  "pawnAttack b row col byColor =
     (let r = (if byColor = Some White then row - 1 else row + 1) in
      0 \<le> r \<and> r < 8 \<and>
      ((0 \<le> col - 1 \<and> hasPiece b r (col - 1) Pawn byColor) \<or>
       (col + 1 < 8 \<and> hasPiece b r (col + 1) Pawn byColor)))"
  by (auto simp: pawnAttack_def Let_def)

text \<open>
  Claim C2: a white pawn on \<open>(r+1, c-1)\<close> or \<open>(r+1, c+1)\<close> attacks \<open>(r, c)\<close>, and a
  black pawn on \<open>(r-1, c-1)\<close> or \<open>(r-1, c+1)\<close> does. The source tests the row
  \<^verbatim>\<open>row - pawnDirection\<close> with \<^verbatim>\<open>pawnDirection = 1\<close> for white, which is the row
  \<open>r - 1\<close>: the side the white pawns advance towards, not the side they stand on
  (\<open>pawnAttack_reads\<close>). In the initial position the square d3 \<open>(5, 3)\<close> has the white
  pawns of c2 and e2 diagonally behind it and is reported as not attacked by white;
  likewise d6 \<open>(2, 3)\<close>, with the black pawns of c7 and e7 behind it, is reported as not
  attacked by black.
\<close>

theorem pawn_attack_misses_initial_d3:
  "hasPiece initialBoard 6 2 Pawn (Some White) \<and> hasPiece initialBoard 6 4 Pawn (Some White) \<and>
   \<not> isSquareUnderAttack initialBoard 5 3 (Some White) \<and>
   hasPiece initialBoard 1 2 Pawn (Some Black) \<and> hasPiece initialBoard 1 4 Pawn (Some Black) \<and>
   \<not> isSquareUnderAttack initialBoard 2 3 (Some Black)"
  by code_simp

section \<open>The result of makeMove\<close>

lemma makeMove_empty:
  assumes "isRow b (fst (mFrom m))"
    and "cell b (fst (mFrom m)) (snd (mFrom m)) = None"
  shows "makeMove b m =
           Inr \<lparr>valid = False, error = Some ''No piece at the source position'', resMove = None,
                newBoard = None, inCheck = None, resCheckmate = None, resStalemate = None,
                resDraw = None\<rparr>"
  using assms by (simp add: makeMove_def)

lemma makeMove_result:
  assumes "makeMove b m = Inr res"
    and "cell b (fst (mFrom m)) (snd (mFrom m)) = Some piece"
  shows "res =
           \<lparr>valid = True, error = None, resMove = Some m,
            newBoard = Some (movedBoard b m piece),
            inCheck = (if isInCheck (movedBoard b m piece) (opponentOf (pcolor piece))
                       then opponentOf (pcolor piece) else None),
            resCheckmate =
              Some (isCheckmate (movedBoard b m piece) (opponentOf (pcolor piece)) = Inr True),
            resStalemate =
              Some (isStalemate (movedBoard b m piece) (opponentOf (pcolor piece)) = Inr True),
            resDraw = Some (isDrawByInsufficientMaterial (movedBoard b m piece))\<rparr>"
proof (cases "isInCheck (movedBoard b m piece) (opponentOf (pcolor piece))")
  case True
  with assms show ?thesis
    by (auto simp: makeMove_def Let_def isStalemate_def split: if_splits sum.splits)
next
  case False
  with assms show ?thesis
    by (auto simp: makeMove_def Let_def isCheckmate_def split: if_splits sum.splits)
qed

lemma makeMove_piece:
  assumes "length b = 8"
    and "0 \<le> fst (mFrom m)" "fst (mFrom m) < 8" "0 \<le> fst (mTo m)" "fst (mTo m) < 8"
    and "cell b (fst (mFrom m)) (snd (mFrom m)) = Some piece"
  shows "makeMove b m =
           Inr \<lparr>valid = True, error = None, resMove = Some m,
                newBoard = Some (movedBoard b m piece),
                inCheck = (if isInCheck (movedBoard b m piece) (opponentOf (pcolor piece))
                           then opponentOf (pcolor piece) else None),
                resCheckmate =
                  Some (isCheckmate (movedBoard b m piece) (opponentOf (pcolor piece)) = Inr True),
                resStalemate =
                  Some (isStalemate (movedBoard b m piece) (opponentOf (pcolor piece)) = Inr True),
                resDraw = Some (isDrawByInsufficientMaterial (movedBoard b m piece))\<rparr>"
proof -
  from assms(1) have len: "length (movedBoard b m piece) = 8"
    by (simp add: length_movedBoard)
  from isCheckmate_Inr[OF len] obtain x
    where x: "isCheckmate (movedBoard b m piece) (opponentOf (pcolor piece)) = Inr x" by blast
  from isStalemate_Inr[OF len] obtain y
    where y: "isStalemate (movedBoard b m piece) (opponentOf (pcolor piece)) = Inr y" by blast
  show ?thesis
  proof (cases "isInCheck (movedBoard b m piece) (opponentOf (pcolor piece))")
    case True
    with assms x show ?thesis
      by (simp add: makeMove_def Let_def isRow_8 isStalemate_def)
  next
    case False
    with assms y show ?thesis
      by (simp add: makeMove_def Let_def isRow_8 isCheckmate_def)
  qed
qed

text \<open>
  Claim C3: on an 8\<times>8 board, for a move whose rows are rows of the board,
  \<^verbatim>\<open>makeMove\<close> returns normally, whatever the move is. The result is invalid exactly
  when the source square is empty, and is then the error text alone, without a board.
  When a piece stands on the source the result is valid and carries the move, the new
  board and the flags derived from it: \<^verbatim>\<open>inCheck\<close> from \<^verbatim>\<open>isInCheck\<close>, the two
  status flags as \<^verbatim>\<open>isCheckmate\<close> and \<^verbatim>\<open>isStalemate\<close> return them, the draw flag
  from \<^verbatim>\<open>isDrawByInsufficientMaterial\<close>, all for the opponent of the piece on the new
  board. For a move without castle, en-passant or promotion mark the new board is the
  old one with the source emptied and the piece, marked as moved, on the destination.
\<close>

theorem makeMove_valid_iff_source:
  assumes wf: "wfBoard b"
    and rows: "0 \<le> fst (mFrom m)" "fst (mFrom m) < 8" "0 \<le> fst (mTo m)" "fst (mTo m) < 8"
  shows "\<exists>res. makeMove b m = Inr res \<and>
           (valid res \<longleftrightarrow> cell b (fst (mFrom m)) (snd (mFrom m)) \<noteq> None) \<and>
           (cell b (fst (mFrom m)) (snd (mFrom m)) = None \<longrightarrow>
              res = \<lparr>valid = False, error = Some ''No piece at the source position'',
                     resMove = None, newBoard = None, inCheck = None, resCheckmate = None,
                     resStalemate = None, resDraw = None\<rparr>) \<and>
           (\<forall>piece. cell b (fst (mFrom m)) (snd (mFrom m)) = Some piece \<longrightarrow>
              (\<exists>nb mate stale.
                 res = \<lparr>valid = True, error = None, resMove = Some m, newBoard = Some nb,
                        inCheck = (if isInCheck nb (opponentOf (pcolor piece))
                                   then opponentOf (pcolor piece) else None),
                        resCheckmate = Some mate, resStalemate = Some stale,
                        resDraw = Some (isDrawByInsufficientMaterial nb)\<rparr> \<and>
                 isCheckmate nb (opponentOf (pcolor piece)) = Inr mate \<and>
                 isStalemate nb (opponentOf (pcolor piece)) = Inr stale \<and>
                 length nb = 8 \<and>
                 (isCastle m = None \<and> \<not> isEnPassant m \<and> promotion m = None \<and>
                  0 \<le> snd (mTo m) \<longrightarrow>
                    (\<forall>r c. cell nb r c =
                       (if (r, c) = mFrom m then None
                        else if (r, c) = mTo m then Some (piece\<lparr>hasMoved := True\<rparr>)
                        else cell b r c)))))"
proof -
  from wf have len: "length b = 8" by (rule wfBoard_length)
  show ?thesis
  proof (cases "cell b (fst (mFrom m)) (snd (mFrom m))")
    case None
    from rows len have "isRow b (fst (mFrom m))" by (simp add: isRow_8)
    from makeMove_empty[OF this None] None show ?thesis by simp
  next
    case (Some piece)
    define nb where "nb = movedBoard b m piece"
    have lnb: "length nb = 8" by (simp add: nb_def length_movedBoard len)
    from isCheckmate_Inr[OF lnb] obtain mate
      where mate: "isCheckmate nb (opponentOf (pcolor piece)) = Inr mate" by blast
    from isStalemate_Inr[OF lnb] obtain stale
      where stale: "isStalemate nb (opponentOf (pcolor piece)) = Inr stale" by blast
    have cells: "cell nb r c =
                   (if (r, c) = mFrom m then None
                    else if (r, c) = mTo m then Some (piece\<lparr>hasMoved := True\<rparr>)
                    else cell b r c)"
      if "isCastle m = None" "\<not> isEnPassant m" "promotion m = None" "0 \<le> snd (mTo m)" for r c
    proof -
      from Some have "0 \<le> snd (mFrom m)"
        by (auto simp: cell_def split: if_splits)
      with that rows len show ?thesis
        by (auto simp: nb_def movedBoard_def Let_def cell_put length_put prod_eq_iff)
    qed
    let ?res = "\<lparr>valid = True, error = None, resMove = Some m, newBoard = Some nb,
                inCheck = (if isInCheck nb (opponentOf (pcolor piece))
                           then opponentOf (pcolor piece) else None),
                resCheckmate = Some mate, resStalemate = Some stale,
                resDraw = Some (isDrawByInsufficientMaterial nb)\<rparr>"
    from makeMove_piece[OF len rows Some] mate stale
    have res: "makeMove b m = Inr ?res"
      by (simp add: nb_def)
    have v: "valid ?res \<longleftrightarrow> cell b (fst (mFrom m)) (snd (mFrom m)) \<noteq> None"
      using Some by simp
    have e: "cell b (fst (mFrom m)) (snd (mFrom m)) = None \<longrightarrow>
              ?res = \<lparr>valid = False, error = Some ''No piece at the source position'',
                     resMove = None, newBoard = None, inCheck = None, resCheckmate = None,
                     resStalemate = None, resDraw = None\<rparr>"
      using Some by simp
    have p: "\<forall>piece. cell b (fst (mFrom m)) (snd (mFrom m)) = Some piece \<longrightarrow>
              (\<exists>nb mate stale.
                 ?res = \<lparr>valid = True, error = None, resMove = Some m, newBoard = Some nb,
                        inCheck = (if isInCheck nb (opponentOf (pcolor piece))
                                   then opponentOf (pcolor piece) else None),
                        resCheckmate = Some mate, resStalemate = Some stale,
                        resDraw = Some (isDrawByInsufficientMaterial nb)\<rparr> \<and>
                 isCheckmate nb (opponentOf (pcolor piece)) = Inr mate \<and>
                 isStalemate nb (opponentOf (pcolor piece)) = Inr stale \<and>
                 length nb = 8 \<and>
                 (isCastle m = None \<and> \<not> isEnPassant m \<and> promotion m = None \<and>
                  0 \<le> snd (mTo m) \<longrightarrow>
                    (\<forall>r c. cell nb r c =
                       (if (r, c) = mFrom m then None
                        else if (r, c) = mTo m then Some (piece\<lparr>hasMoved := True\<rparr>)
                        else cell b r c))))"
    proof (intro allI impI)
      fix piece'
      assume "cell b (fst (mFrom m)) (snd (mFrom m)) = Some piece'"
      with Some have same: "piece' = piece" by simp
      show "\<exists>nb mate stale.
                 ?res = \<lparr>valid = True, error = None, resMove = Some m, newBoard = Some nb,
                        inCheck = (if isInCheck nb (opponentOf (pcolor piece'))
                                   then opponentOf (pcolor piece') else None),
                        resCheckmate = Some mate, resStalemate = Some stale,
                        resDraw = Some (isDrawByInsufficientMaterial nb)\<rparr> \<and>
                 isCheckmate nb (opponentOf (pcolor piece')) = Inr mate \<and>
                 isStalemate nb (opponentOf (pcolor piece')) = Inr stale \<and>
                 length nb = 8 \<and>
                 (isCastle m = None \<and> \<not> isEnPassant m \<and> promotion m = None \<and>
                  0 \<le> snd (mTo m) \<longrightarrow>
                    (\<forall>r c. cell nb r c =
                       (if (r, c) = mFrom m then None
                        else if (r, c) = mTo m then Some (piece'\<lparr>hasMoved := True\<rparr>)
                        else cell b r c)))"
        unfolding same
      proof (rule exI[of _ nb], rule exI[of _ mate], rule exI[of _ stale], intro conjI impI allI)
        fix r c
        assume "isCastle m = None \<and> \<not> isEnPassant m \<and> promotion m = None \<and> 0 \<le> snd (mTo m)"
        then show "cell nb r c =
                       (if (r, c) = mFrom m then None
                        else if (r, c) = mTo m then Some (piece\<lparr>hasMoved := True\<rparr>)
                        else cell b r c)"
          by (intro cells) simp_all
      qed (simp_all add: mate stale lnb)
    qed
    show ?thesis by (rule exI[of _ ?res]) (intro conjI res v e p)
  qed
qed

theorem makeMove_valid_iff_source_witness:
  "wfBoard initialBoard \<and> cell initialBoard 6 4 = pc Pawn White \<and> cell initialBoard 4 4 = None \<and>
   (\<exists>res nb. makeMove initialBoard (basicMove (6, 4) (4, 4)) = Inr res \<and> valid res \<and>
      error res = None \<and> newBoard res = Some nb \<and>
      cell nb 4 4 = Some \<lparr>ptype = Some Pawn, pcolor = Some White, hasMoved = True\<rparr> \<and>
      cell nb 6 4 = None \<and> cell nb 7 4 = pc King White) \<and>
   (\<exists>res. makeMove initialBoard (basicMove (4, 4) (3, 4)) = Inr res \<and> \<not> valid res \<and>
      error res = Some ''No piece at the source position'' \<and> newBoard res = None)"
proof -
  have wf: "wfBoard initialBoard" by code_simp
  have c1: "cell initialBoard 6 4 = pc Pawn White" and c2: "cell initialBoard 4 4 = None"
    and c3: "cell initialBoard 7 4 = pc King White"
    by code_simp+
  from makeMove_valid_iff_source[OF wf, of "basicMove (6, 4) (4, 4)"] c1 c3
  have "\<exists>res nb. makeMove initialBoard (basicMove (6, 4) (4, 4)) = Inr res \<and> valid res \<and>
      error res = None \<and> newBoard res = Some nb \<and>
      cell nb 4 4 = Some \<lparr>ptype = Some Pawn, pcolor = Some White, hasMoved = True\<rparr> \<and>
      cell nb 6 4 = None \<and> cell nb 7 4 = pc King White"
    by (auto simp: basicMove_def pc_def)
  moreover
  from makeMove_valid_iff_source[OF wf, of "basicMove (4, 4) (3, 4)"] c2
  have "\<exists>res. makeMove initialBoard (basicMove (4, 4) (3, 4)) = Inr res \<and> \<not> valid res \<and>
          error res = Some ''No piece at the source position'' \<and> newBoard res = None"
    by (auto simp: basicMove_def)
  ultimately show ?thesis using wf c1 c2 by blast
qed

text \<open>
  Claim C9: \<^verbatim>\<open>isCheckmate\<close> and \<^verbatim>\<open>isStalemate\<close> are never both true for a board
  and a colour, and no result of \<^verbatim>\<open>makeMove\<close> has both flags set.
\<close>

theorem checkmate_excludes_stalemate:
  "\<not> (isCheckmate b color = Inr True \<and> isStalemate b color = Inr True) \<and>
   (\<forall>res. makeMove b m = Inr res \<longrightarrow>
      \<not> (resCheckmate res = Some True \<and> resStalemate res = Some True))"
proof
  show "\<not> (isCheckmate b color = Inr True \<and> isStalemate b color = Inr True)"
    by (cases "isInCheck b color") (simp_all add: isCheckmate_def isStalemate_def)
next
  show "\<forall>res. makeMove b m = Inr res \<longrightarrow>
      \<not> (resCheckmate res = Some True \<and> resStalemate res = Some True)"
  proof (intro allI impI)
    fix res
    assume res: "makeMove b m = Inr res"
    then have row: "isRow b (fst (mFrom m))"
      by (auto simp: makeMove_def split: if_splits)
    show "\<not> (resCheckmate res = Some True \<and> resStalemate res = Some True)"
    proof (cases "cell b (fst (mFrom m)) (snd (mFrom m))")
      case None
      from makeMove_empty[OF row None] res show ?thesis by auto
    next
      case (Some piece)
      have "\<not> (isCheckmate (movedBoard b m piece) (opponentOf (pcolor piece)) = Inr True \<and>
               isStalemate (movedBoard b m piece) (opponentOf (pcolor piece)) = Inr True)"
        by (cases "isInCheck (movedBoard b m piece) (opponentOf (pcolor piece))")
           (simp_all add: isCheckmate_def isStalemate_def)
      with makeMove_result[OF res Some] show ?thesis by auto
    qed
  qed
qed

lemma queenStalemate_result:
  "map_sum id (\<lambda>r. (valid r, inCheck r, resCheckmate r, resStalemate r))
     (makeMove queenStalemateBoard (basicMove (2, 2) (1, 2)))
   = Inr (True, None, Some False, Some True)"
  by code_simp

theorem checkmate_excludes_stalemate_witness:
  "\<exists>res. makeMove queenStalemateBoard (basicMove (2, 2) (1, 2)) = Inr res \<and>
         resStalemate res = Some True \<and>
         \<not> (resCheckmate res = Some True \<and> resStalemate res = Some True)"
proof -
  from queenStalemate_result obtain res
    where res: "makeMove queenStalemateBoard (basicMove (2, 2) (1, 2)) = Inr res"
      and st: "resStalemate res = Some True"
    by (cases "makeMove queenStalemateBoard (basicMove (2, 2) (1, 2))") auto
  from checkmate_excludes_stalemate[of queenStalemateBoard None "basicMove (2, 2) (1, 2)"] res
  have "\<not> (resCheckmate res = Some True \<and> resStalemate res = Some True)" by blast
  with res st show ?thesis by blast
qed

text \<open>
  Claim C10: in a valid result of \<^verbatim>\<open>makeMove\<close> the field \<^verbatim>\<open>inCheck\<close> is absent or
  is the colour opposite to the piece that moved, never the mover's own colour; it is
  present exactly when the opponent is in check on the new board.
\<close>

theorem inCheck_is_opponent:
  assumes "makeMove b m = Inr res" and "valid res"
    and "cell b (fst (mFrom m)) (snd (mFrom m)) = Some piece"
  shows "(inCheck res = None \<or> inCheck res = opponentOf (pcolor piece)) \<and>
         (\<forall>c. inCheck res = Some c \<longrightarrow> pcolor piece \<noteq> Some c) \<and>
         (inCheck res \<noteq> None \<longleftrightarrow>
            (\<exists>nb. newBoard res = Some nb \<and> isInCheck nb (opponentOf (pcolor piece))))"
proof -
  from makeMove_result[OF assms(1) assms(3)] have "inCheck res =
      (if isInCheck (movedBoard b m piece) (opponentOf (pcolor piece))
       then opponentOf (pcolor piece) else None)"
    and "newBoard res = Some (movedBoard b m piece)"
    by simp_all
  then show ?thesis
    by (auto simp: opponentOf_def split: if_splits)
qed

lemma rookCheck_result:
  "map_sum id (\<lambda>r. (valid r, inCheck r, resCheckmate r, resStalemate r))
     (makeMove rookCheckBoard (basicMove (7, 0) (0, 0)))
   = Inr (True, Some Black, Some False, Some False)"
  by code_simp

theorem inCheck_is_opponent_witness:
  "\<exists>res. makeMove rookCheckBoard (basicMove (7, 0) (0, 0)) = Inr res \<and> valid res \<and>
         cell rookCheckBoard 7 0 = pc Rook White \<and> inCheck res = Some Black \<and>
         inCheck res = opponentOf (Some White)"
proof -
  from rookCheck_result obtain res
    where res: "makeMove rookCheckBoard (basicMove (7, 0) (0, 0)) = Inr res"
      and v: "valid res" and ic: "inCheck res = Some Black"
    by (cases "makeMove rookCheckBoard (basicMove (7, 0) (0, 0))") auto
  have c: "cell rookCheckBoard 7 0 = pc Rook White" by code_simp
  then have c': "cell rookCheckBoard (fst (mFrom (basicMove (7, 0) (0, 0))))
                   (snd (mFrom (basicMove (7, 0) (0, 0)))) =
                 Some \<lparr>ptype = Some Rook, pcolor = Some White, hasMoved = False\<rparr>"
    by (simp add: basicMove_def pc_def)
  from inCheck_is_opponent[OF res v c'] ic
  have "inCheck res = opponentOf (Some White)" by simp
  with res v c ic show ?thesis by blast
qed

section \<open>Promotion\<close>

lemma movedBoard_promoted:
  assumes "length b = 8" "inBounds (fst (mTo m)) (snd (mTo m))" "promotion m = Some p"
  shows "cell (movedBoard b m piece) (fst (mTo m)) (snd (mTo m)) =
           Some \<lparr>ptype = Some (promoType p), pcolor = pcolor piece, hasMoved = True\<rparr>"
  using assms
  by (simp add: movedBoard_def Let_def cell_put length_put length_handleCastle
      length_handleEnPassant inBounds_def)

lemma movedBoard_plain:
  assumes "length b = 8" "inBounds (fst (mFrom m)) (snd (mFrom m))"
    "inBounds (fst (mTo m)) (snd (mTo m))"
    "promotion m = None" "isCastle m = None" "\<not> isEnPassant m" "mTo m \<noteq> mFrom m"
  shows "cell (movedBoard b m piece) (fst (mTo m)) (snd (mTo m)) = Some (piece\<lparr>hasMoved := True\<rparr>)"
  using assms
  by (auto simp: movedBoard_def Let_def cell_put length_put inBounds_def prod_eq_iff)

lemma getPawnMoves_promotion:
  assumes "m \<in> set (getPawnMoves b row col piece)" "fst (mTo m) = promotionRow (pcolor piece)"
  shows "promotion m = Some PQueen"
proof -
  define pr :: int where "pr = (if pcolor piece = Some White then 0 else 7)"
  from assms(1) obtain x
    where m: "m = (if fst (mTo x) = pr then x\<lparr>promotion := Some PQueen\<rparr> else x)"
    unfolding getPawnMoves_def Let_def pr_def by (auto simp only: set_map)
  have "fst (mTo m) = fst (mTo x)" by (simp add: m)
  with assms(2) have "fst (mTo x) = pr" by (simp add: promotionRow_def pr_def)
  with m show ?thesis by simp
qed

text \<open>
  Claim C7, as amended, for a move between squares of an 8\<times>8 board whose source holds
  a piece. \<^verbatim>\<open>makeMove\<close> puts a piece of the move's promotion type, of the mover's
  colour and marked as moved, on the destination when the move carries one. It has no
  default: a move without a promotion, without castle or en-passant mark and with a
  destination other than its source leaves the moved piece itself there, marked as
  moved, a pawn staying a pawn on the far rank. The queen default is the move
  generator's: a pawn move returned by \<^verbatim>\<open>getValidMoves\<close> that lands on the far rank
  carries the promotion \<^verbatim>\<open>queen\<close>, and applying it places a queen.
\<close>

theorem makeMove_promotion:
  assumes wf: "wfBoard b"
    and src: "inBounds (fst (mFrom m)) (snd (mFrom m))"
    and dst: "inBounds (fst (mTo m)) (snd (mTo m))"
    and piece: "cell b (fst (mFrom m)) (snd (mFrom m)) = Some piece"
  shows "\<exists>res nb. makeMove b m = Inr res \<and> newBoard res = Some nb \<and>
           (case promotion m of
              Some p \<Rightarrow>
                cell nb (fst (mTo m)) (snd (mTo m)) =
                  Some \<lparr>ptype = Some (promoType p), pcolor = pcolor piece, hasMoved = True\<rparr>
            | None \<Rightarrow>
                isCastle m = None \<and> \<not> isEnPassant m \<and> mTo m \<noteq> mFrom m \<longrightarrow>
                cell nb (fst (mTo m)) (snd (mTo m)) = Some (piece\<lparr>hasMoved := True\<rparr>)) \<and>
           (ptype piece = Some Pawn \<and> fst (mTo m) = promotionRow (pcolor piece) \<and>
            (\<exists>ms. getValidMoves b (fst (mFrom m)) (snd (mFrom m)) = Inr ms \<and> m \<in> set ms) \<longrightarrow>
              promotion m = Some PQueen \<and>
              cell nb (fst (mTo m)) (snd (mTo m)) =
                Some \<lparr>ptype = Some Queen, pcolor = pcolor piece, hasMoved = True\<rparr>)"
proof -
  from wf have len: "length b = 8" by (rule wfBoard_length)
  from src dst have rows: "0 \<le> fst (mFrom m)" "fst (mFrom m) < 8" "0 \<le> fst (mTo m)" "fst (mTo m) < 8"
    by (simp_all add: inBounds_def)
  from makeMove_piece[OF len rows piece] obtain res
    where res: "makeMove b m = Inr res" and nb: "newBoard res = Some (movedBoard b m piece)"
    by auto
  have a: "case promotion m of
              Some p \<Rightarrow>
                cell (movedBoard b m piece) (fst (mTo m)) (snd (mTo m)) =
                  Some \<lparr>ptype = Some (promoType p), pcolor = pcolor piece, hasMoved = True\<rparr>
            | None \<Rightarrow>
                isCastle m = None \<and> \<not> isEnPassant m \<and> mTo m \<noteq> mFrom m \<longrightarrow>
                cell (movedBoard b m piece) (fst (mTo m)) (snd (mTo m)) = Some (piece\<lparr>hasMoved := True\<rparr>)"
    using movedBoard_promoted[OF len dst] movedBoard_plain[OF len src dst]
    by (auto split: option.split)
  have b: "promotion m = Some PQueen \<and>
           cell (movedBoard b m piece) (fst (mTo m)) (snd (mTo m)) =
                Some \<lparr>ptype = Some Queen, pcolor = pcolor piece, hasMoved = True\<rparr>"
    if pawn: "ptype piece = Some Pawn" and far: "fst (mTo m) = promotionRow (pcolor piece)"
      and gen: "getValidMoves b (fst (mFrom m)) (snd (mFrom m)) = Inr ms" "m \<in> set ms" for ms
  proof -
    from gen rows piece pawn len
    have "m \<in> set (getPawnMoves b (fst (mFrom m)) (snd (mFrom m)) piece)"
      by (auto simp: getValidMoves_def isRow_8)
    from getPawnMoves_promotion[OF this far] have q: "promotion m = Some PQueen" .
    with movedBoard_promoted[OF len dst q, of piece] show ?thesis
      by (simp add: promoType_def)
  qed
  from res nb a b show ?thesis by blast
qed

theorem makeMove_promotion_witness:
  "wfBoard pawnA7Board \<and> cell pawnA7Board 1 0 = pc Pawn White \<and>
   getValidMoves pawnA7Board 1 0 = Inr [(basicMove (1, 0) (0, 0))\<lparr>promotion := Some PQueen\<rparr>] \<and>
   (\<exists>res nb. makeMove pawnA7Board ((basicMove (1, 0) (0, 0))\<lparr>promotion := Some PQueen\<rparr>) = Inr res \<and>
      newBoard res = Some nb \<and>
      cell nb 0 0 = Some \<lparr>ptype = Some Queen, pcolor = Some White, hasMoved = True\<rparr>)"
proof -
  define qm where "qm = (basicMove (1, 0) (0, 0))\<lparr>promotion := Some PQueen\<rparr>"
  have wf: "wfBoard pawnA7Board" by code_simp
  have c: "cell pawnA7Board 1 0 = pc Pawn White" by code_simp
  have g: "getValidMoves pawnA7Board 1 0 = Inr [(basicMove (1, 0) (0, 0))\<lparr>promotion := Some PQueen\<rparr>]"
    by code_simp
  have src: "inBounds (fst (mFrom qm)) (snd (mFrom qm))" and dst: "inBounds (fst (mTo qm)) (snd (mTo qm))"
    by (simp_all add: qm_def basicMove_def inBounds_def)
  have piece: "cell pawnA7Board (fst (mFrom qm)) (snd (mFrom qm)) =
                 Some \<lparr>ptype = Some Pawn, pcolor = Some White, hasMoved = False\<rparr>"
    using c by (simp add: qm_def basicMove_def pc_def)
  from makeMove_promotion[OF wf src dst piece] g
  have "\<exists>res nb. makeMove pawnA7Board qm = Inr res \<and> newBoard res = Some nb \<and>
      cell nb 0 0 = Some \<lparr>ptype = Some Queen, pcolor = Some White, hasMoved = True\<rparr>"
    by (auto simp: qm_def basicMove_def promotionRow_def)
  with wf c g show ?thesis by (simp add: qm_def)
qed

text \<open>
  The claim as stated fails: the pawn of a7 moved to a8 by a move without promotion is
  still a pawn on the new board.
\<close>

theorem makeMove_no_default_promotion:
  "hasPiece pawnA7Board 1 0 Pawn (Some White) \<and> promotion (basicMove (1, 0) (0, 0)) = None \<and>
   madeBoard pawnA7Board (basicMove (1, 0) (0, 0)) = Some pawnA8Board \<and>
   hasPiece pawnA8Board 0 0 Pawn (Some White)"
  by code_simp

section \<open>Notation\<close>

lemma char_codes:
  "char_of (97::nat) = CHR ''a''" "char_of (98::nat) = CHR ''b''" "char_of (99::nat) = CHR ''c''"
  "char_of (100::nat) = CHR ''d''" "char_of (101::nat) = CHR ''e''" "char_of (102::nat) = CHR ''f''"
  "char_of (103::nat) = CHR ''g''" "char_of (104::nat) = CHR ''h''"
  "char_of (49::nat) = CHR ''1''" "char_of (50::nat) = CHR ''2''" "char_of (51::nat) = CHR ''3''"
  "char_of (52::nat) = CHR ''4''" "char_of (53::nat) = CHR ''5''" "char_of (54::nat) = CHR ''6''"
  "char_of (55::nat) = CHR ''7''" "char_of (56::nat) = CHR ''8''"
  "char_of (75::nat) = CHR ''K''" "char_of (66::nat) = CHR ''B''" "char_of (82::nat) = CHR ''R''"
  "char_of (81::nat) = CHR ''Q''"
  by code_simp+

lemma int_cases8: "0 \<le> (i::int) \<Longrightarrow> i < 8 \<Longrightarrow> i \<in> {0, 1, 2, 3, 4, 5, 6, 7}"
  by auto

lemma files_at: "0 \<le> c \<Longrightarrow> c < 8 \<Longrightarrow> charAtIndex ''abcdefgh'' c = Str [fileLetter c]"
  by (drule (1) int_cases8) (auto simp: charAtIndex_def fileLetter_def char_codes)

lemma ranks_at: "0 \<le> r \<Longrightarrow> r < 8 \<Longrightarrow> charAtIndex ''87654321'' r = Str [rankDigit r]"
  by (drule (1) int_cases8) (auto simp: charAtIndex_def rankDigit_def char_codes)

lemma promo_upper: "toUpperCase (take (Suc 0) (promoName p)) = [promoLetter p]"
  by (cases p) (simp_all add: toUpperCase_def promoName_def promoLetter_def char_codes)

text \<open>
  Claim C8: a castle move is written \<open>O-O\<close> or \<open>O-O-O\<close>; any other move whose squares
  lie on the board is written as the file and rank of the source, the file and rank of
  the destination, \<open>=\<close> and the capital initial of the promotion piece if there is
  one, \<open>+\<close> if the check flag is set and \<open>#\<close> if the checkmate flag is set.
\<close>

theorem moveToAlgebraic_notation:
  assumes "isCastle move \<noteq> None \<or>
           (inBounds (fst (mFrom move)) (snd (mFrom move)) \<and> inBounds (fst (mTo move)) (snd (mTo move)))"
  shows "moveToAlgebraic move = notationSpec move"
proof (cases "isCastle move")
  case (Some side)
  then show ?thesis by (cases side) (simp_all add: moveToAlgebraic_def notationSpec_def)
next
  case None
  with assms show ?thesis
    by (simp add: moveToAlgebraic_def notationSpec_def inBounds_def files_at ranks_at promo_upper
        jsPlus_def toJsString_def split: option.split)
qed

theorem moveToAlgebraic_notation_witness:
  "inBounds 6 4 \<and> inBounds 4 4 \<and>
   moveToAlgebraic (basicMove (6, 4) (4, 4)) = ''e2e4'' \<and>
   moveToAlgebraic ((basicMove (1, 0) (0, 1))\<lparr>promotion := Some PQueen, isCheck := True\<rparr>) = ''a7b8=Q+'' \<and>
   moveToAlgebraic ((basicMove (7, 4) (7, 6))\<lparr>isCastle := Some Kingside\<rparr>) = ''O-O''"
proof -
  have b: "inBounds 6 4" "inBounds 4 4" "inBounds 1 0" "inBounds 0 1" by (simp_all add: inBounds_def)
  have "moveToAlgebraic (basicMove (6, 4) (4, 4)) = ''e2e4''"
    using moveToAlgebraic_notation[of "basicMove (6, 4) (4, 4)"] b
    by (simp add: basicMove_def notationSpec_def fileLetter_def rankDigit_def char_codes)
  moreover have "moveToAlgebraic ((basicMove (1, 0) (0, 1))\<lparr>promotion := Some PQueen, isCheck := True\<rparr>) = ''a7b8=Q+''"
    using moveToAlgebraic_notation[of "(basicMove (1, 0) (0, 1))\<lparr>promotion := Some PQueen, isCheck := True\<rparr>"] b
    by (simp add: basicMove_def notationSpec_def fileLetter_def rankDigit_def promoLetter_def char_codes)
  moreover have "moveToAlgebraic ((basicMove (7, 4) (7, 6))\<lparr>isCastle := Some Kingside\<rparr>) = ''O-O''"
    using moveToAlgebraic_notation[of "(basicMove (7, 4) (7, 6))\<lparr>isCastle := Some Kingside\<rparr>"]
    by (simp add: basicMove_def notationSpec_def)
  ultimately show ?thesis using b by simp
qed

section \<open>Insufficient material\<close>





section \<open>Attacks depend on what the test sees\<close>

lemma attack_split:
  "isSquareUnderAttack b row col byColor = (offRowAttack b row col byColor \<or> rowAttack b row col byColor)"
  by (auto simp: isSquareUnderAttack_def offRowAttack_def rowAttack_def lineAttack_def
      kingAttack_def directions_def)

lemma slideAttack_stop:
  "\<not> (inBounds r c \<and> (dr \<noteq> 0 \<or> dc \<noteq> 0)) \<Longrightarrow> \<not> slideAttack b byColor dr dc r c"
  by (subst slideAttack.simps) auto

lemma slideAttack_out: "\<not> inBounds r c \<Longrightarrow> \<not> slideAttack b byColor dr dc r c"
  by (rule slideAttack_stop) simp

lemma slideAttack_None:
  "inBounds r c \<Longrightarrow> dr \<noteq> 0 \<or> dc \<noteq> 0 \<Longrightarrow> cell b r c = None \<Longrightarrow>
   slideAttack b byColor dr dc r c = slideAttack b byColor dr dc (r + dr) (c + dc)"
  by (subst slideAttack.simps) simp

lemma slideAttack_Some:
  "inBounds r c \<Longrightarrow> dr \<noteq> 0 \<or> dc \<noteq> 0 \<Longrightarrow> cell b r c = Some piece \<Longrightarrow>
   slideAttack b byColor dr dc r c =
     (pcolor piece = byColor \<and>
      (((dr \<noteq> 0 \<and> dc \<noteq> 0) \<and> (ptype piece = Some Bishop \<or> ptype piece = Some Queen)) \<or>
       ((dr = 0 \<or> dc = 0) \<and> (ptype piece = Some Rook \<or> ptype piece = Some Queen))))"
  by (subst slideAttack.simps) simp

lemma slideAttack_blocked:
  "cell b r c = Some piece \<Longrightarrow> pcolor piece \<noteq> byColor \<Longrightarrow> \<not> slideAttack b byColor dr dc r c"
  by (subst slideAttack.simps) simp

lemma hasPiece_view:
  "hasPiece b r c t byColor = (attackView byColor (cell b r c) = Some (Some t))"
  by (auto simp: hasPiece_def attackView_def split: option.split)

lemma view_None: "(attackView byColor v = None) = (v = None)"
  by (simp add: attackView_def split: option.split)

lemma slideAttack_cong:
  assumes "P r c"
    and "\<And>r c. P r c \<Longrightarrow> P (r + dr) (c + dc)"
    and "\<And>r c. P r c \<Longrightarrow> attackView byColor (cell b1 r c) = attackView byColor (cell b2 r c)"
  shows "slideAttack b1 byColor dr dc r c = slideAttack b2 byColor dr dc r c"
  using assms
proof (induction b1 byColor dr dc r c rule: slideAttack.induct)
  case (1 b byColor dr dc newRow newCol)
  from "1.prems"
  have same: "attackView byColor (cell b newRow newCol) = attackView byColor (cell b2 newRow newCol)"
    by blast
  show ?case
  proof (cases "inBounds newRow newCol \<and> (dr \<noteq> 0 \<or> dc \<noteq> 0)")
    case False
    then show ?thesis
      using slideAttack_stop[of newRow newCol dr dc] by blast
  next
    case True
    then have ib: "inBounds newRow newCol" and nz: "dr \<noteq> 0 \<or> dc \<noteq> 0" by auto
    show ?thesis
    proof (cases "cell b newRow newCol")
      case None
      with same view_None[of byColor "cell b2 newRow newCol"]
      have n2: "cell b2 newRow newCol = None" by (simp add: attackView_def)
      from "1.prems" have "P (newRow + dr) (newCol + dc)" by blast
      from "1.IH"[OF True None this "1.prems"(2,3)]
      show ?thesis
        unfolding slideAttack_None[OF ib nz None] slideAttack_None[OF ib nz n2] .
    next
      case (Some p1)
      with same obtain p2 where s2: "cell b2 newRow newCol = Some p2"
        by (cases "cell b2 newRow newCol") (auto simp: attackView_def)
      from same Some s2
      have v: "(if pcolor p1 = byColor then ptype p1 else None) =
               (if pcolor p2 = byColor then ptype p2 else None)"
        by (simp add: attackView_def)
      show ?thesis
        unfolding slideAttack_Some[OF ib nz Some] slideAttack_Some[OF ib nz s2]
        using v by (auto split: if_splits)
    qed
  qed
qed

lemma offRowAttack_cong:
  assumes "\<And>r c. r \<noteq> row \<Longrightarrow> attackView byColor (cell b1 r c) = attackView byColor (cell b2 r c)"
  shows "offRowAttack b1 row col byColor = offRowAttack b2 row col byColor"
proof -
  have hp: "\<And>r c t. r \<noteq> row \<Longrightarrow> hasPiece b1 r c t byColor = hasPiece b2 r c t byColor"
    by (simp add: hasPiece_view assms)
  have up: "\<And>dc c. slideAttack b1 byColor (-1) dc (row - 1) c = slideAttack b2 byColor (-1) dc (row - 1) c"
    by (rule slideAttack_cong[where P = "\<lambda>r c. r < row"]) (auto simp: assms)
  have down: "\<And>dc c. slideAttack b1 byColor 1 dc (row + 1) c = slideAttack b2 byColor 1 dc (row + 1) c"
    by (rule slideAttack_cong[where P = "\<lambda>r c. r > row"]) (auto simp: assms)
  have p: "pawnAttack b1 row col byColor = pawnAttack b2 row col byColor"
    using hp[of "row - 1"] hp[of "row + 1"] by (auto simp: pawnAttack_reads Let_def)
  have k: "knightAttack b1 row col byColor = knightAttack b2 row col byColor"
    by (simp add: knightAttack_def knightOffsets_def hp)
  have s: "list_ex (\<lambda>(dr, dc). slideAttack b1 byColor dr dc (row + dr) (col + dc))
             (filter (\<lambda>(dr, dc). dr \<noteq> 0) directions) =
           list_ex (\<lambda>(dr, dc). slideAttack b2 byColor dr dc (row + dr) (col + dc))
             (filter (\<lambda>(dr, dc). dr \<noteq> 0) directions)"
    by (simp add: directions_def up down)
  have g: "list_ex (\<lambda>(dr, dc). inBounds (row + dr) (col + dc) \<and> hasPiece b1 (row + dr) (col + dc) King byColor)
             (filter (\<lambda>(dr, dc). dr \<noteq> 0) directions) =
           list_ex (\<lambda>(dr, dc). inBounds (row + dr) (col + dc) \<and> hasPiece b2 (row + dr) (col + dc) King byColor)
             (filter (\<lambda>(dr, dc). dr \<noteq> 0) directions)"
    by (simp add: directions_def hp)
  show ?thesis
    unfolding offRowAttack_def p k s g ..
qed

lemma rowAttack_cong:
  assumes "\<And>c. attackView byColor (cell b1 row c) = attackView byColor (cell b2 row c)"
  shows "rowAttack b1 row col byColor = rowAttack b2 row col byColor"
proof -
  have hp: "\<And>c t. hasPiece b1 row c t byColor = hasPiece b2 row c t byColor"
    by (simp add: hasPiece_view assms)
  have l: "\<And>dc c. slideAttack b1 byColor 0 dc row c = slideAttack b2 byColor 0 dc row c"
    by (rule slideAttack_cong[where P = "\<lambda>r c. r = row"]) (auto simp: assms)
  show ?thesis by (simp add: rowAttack_def hp l)
qed

lemma isSquareUnderAttack_cong:
  assumes "\<And>r c. attackView byColor (cell b1 r c) = attackView byColor (cell b2 r c)"
  shows "isSquareUnderAttack b1 row col byColor = isSquareUnderAttack b2 row col byColor"
proof -
  have "offRowAttack b1 row col byColor = offRowAttack b2 row col byColor"
    by (rule offRowAttack_cong) (rule assms)
  moreover have "rowAttack b1 row col byColor = rowAttack b2 row col byColor"
    by (rule rowAttack_cong) (rule assms)
  ultimately show ?thesis by (simp only: attack_split)
qed

section \<open>The king and check\<close>

lemma opponentOf_neq: "opponentOf co \<noteq> co"
  by (simp add: opponentOf_def)

lemma distinct_allSquares: "distinct allSquares"
  by code_simp

lemma find_unique:
  assumes "x \<in> set xs" "P x" and uniq: "\<And>y. y \<in> set xs \<Longrightarrow> P y \<Longrightarrow> y = x"
  shows "find P xs = Some x"
proof -
  from assms(1,2) have "find P xs \<noteq> None" by (auto simp: find_None_iff)
  then obtain y where y: "find P xs = Some y" by auto
  then obtain i where "i < length xs" "P (xs ! i)" "y = xs ! i"
    unfolding find_Some_iff by blast
  then have "y \<in> set xs" "P y" by simp_all
  then have "y = x" by (rule uniq)
  with y show ?thesis by simp
qed

lemma isInCheck_king_at:
  assumes "inBounds kr kc" "hasPiece b kr kc King co"
    and "\<And>r c. inBounds r c \<Longrightarrow> hasPiece b r c King co \<Longrightarrow> r = kr \<and> c = kc"
  shows "isInCheck b co = isSquareUnderAttack b kr kc (opponentOf co)"
proof -
  have "find (\<lambda>(r, c). hasPiece b r c King co) allSquares = Some (kr, kc)"
  proof (rule find_unique)
    show "(kr, kc) \<in> set allSquares" using assms(1) by (simp add: set_allSquares)
    show "case (kr, kc) of (r, c) \<Rightarrow> hasPiece b r c King co" using assms(2) by simp
    fix y assume y: "y \<in> set allSquares" "case y of (r, c) \<Rightarrow> hasPiece b r c King co"
    obtain r c where rc: "y = (r, c)" by (cases y)
    with y have "inBounds r c" "hasPiece b r c King co" by (simp_all add: set_allSquares)
    then have "r = kr \<and> c = kc" by (rule assms(3))
    with rc show "y = (kr, kc)" by simp
  qed
  then show ?thesis by (simp add: isInCheck_def)
qed

lemma isInCheck_cong:
  assumes k: "\<And>r c. hasPiece b1 r c King co = hasPiece b2 r c King co"
    and v: "\<And>r c. attackView (opponentOf co) (cell b1 r c) = attackView (opponentOf co) (cell b2 r c)"
  shows "isInCheck b1 co = isInCheck b2 co"
proof -
  have "isSquareUnderAttack b1 r c (opponentOf co) = isSquareUnderAttack b2 r c (opponentOf co)" for r c
    by (rule isSquareUnderAttack_cong) (rule v)
  then show ?thesis by (auto simp: isInCheck_def k split: option.splits)
qed

lemma length_filter_map_filter:
  "length (filter P (List.map_filter f xs)) =
   length (filter (\<lambda>x. case f x of None \<Rightarrow> False | Some y \<Rightarrow> P y) xs)"
  by (induction xs) (auto split: option.split)

lemma kingCount_squares:
  "kingCount b co = length (filter (\<lambda>(r, c). hasPiece b r c King (Some co)) allSquares)"
proof -
  have "(\<lambda>x. case (case x of (r, c) \<Rightarrow> cell b r c) of None \<Rightarrow> False
              | Some p \<Rightarrow> pcolor p = Some co \<and> ptype p = Some King) =
        (\<lambda>(r, c). hasPiece b r c King (Some co))"
    by (auto simp: fun_eq_iff hasPiece_def split: option.split)
  then show ?thesis
    by (simp add: kingCount_def piecesOf_def length_filter_map_filter)
qed

lemma only_king:
  assumes "kingCount b co \<le> 1"
    and "inBounds kr kc" "hasPiece b kr kc King (Some co)"
    and "inBounds r c" "hasPiece b r c King (Some co)"
  shows "r = kr \<and> c = kc"
proof -
  define ks where "ks = filter (\<lambda>(r, c). hasPiece b r c King (Some co)) allSquares"
  have d: "distinct ks" by (simp add: ks_def distinct_allSquares)
  from assms have m: "(kr, kc) \<in> set ks" "(r, c) \<in> set ks"
    by (simp_all add: ks_def set_allSquares)
  from assms(1) have "length ks \<le> 1" by (simp add: kingCount_squares ks_def)
  with m obtain z where "ks = [z]"
    by (cases ks) (auto simp: Suc_le_eq)
  with m show ?thesis by auto
qed

section \<open>The generated moves\<close>

lemma cell_Some_row: "length b = 8 \<Longrightarrow> cell b r c = Some p \<Longrightarrow> 0 \<le> r \<and> r < 8"
  by (auto simp: cell_8 split: if_splits)

lemma getPawnMoves_plain:
  assumes len: "length b = 8"
    and "inBounds row col" "m \<in> set (getPawnMoves b row col piece)"
  shows "plainMove row col m \<and> fst (mTo m) \<noteq> row"
proof -
  define d :: int where "d = (if pcolor piece = Some White then -1 else 1)"
  define pr :: int where "pr = (if pcolor piece = Some White then 0 else 7)"
  define forward where "forward =
            (if row + d \<ge> 0 \<and> row + d < 8 \<and> cell b (row + d) col = None then
               basicMove (row, col) (row + d, col) #
               (if row = (if pcolor piece = Some White then 6 else 1) \<and> cell b (row + 2 * d) col = None
                then [basicMove (row, col) (row + 2 * d, col)] else [])
             else [])"
  define captures where "captures =
            concat (map (\<lambda>dc.
              if col + dc \<ge> 0 \<and> col + dc < 8 then
                (case cell b (row + d) (col + dc) of
                   Some target \<Rightarrow>
                     if pcolor target \<noteq> pcolor piece
                     then [(basicMove (row, col) (row + d, col + dc))\<lparr>isCapture := Some True\<rparr>]
                     else []
                 | None \<Rightarrow> [])
              else []) [-1, 1])"
  from assms(3) obtain x where x: "x \<in> set (forward @ captures)"
    and m: "m = (if fst (mTo x) = pr then x\<lparr>promotion := Some PQueen\<rparr> else x)"
    unfolding getPawnMoves_def Let_def d_def pr_def forward_def captures_def
    by (auto simp only: set_map)
  have "plainMove row col x \<and> fst (mTo x) \<noteq> row"
  proof (cases "x \<in> set forward")
    case True
    with assms(2) show ?thesis
      by (auto simp: forward_def plainMove_def basicMove_def inBounds_def d_def split: if_splits)
  next
    case False
    with x have "x \<in> set captures" by simp
    moreover define f where "f = (\<lambda>dc.
              if col + dc \<ge> 0 \<and> col + dc < 8 then
                (case cell b (row + d) (col + dc) of
                   Some target \<Rightarrow>
                     if pcolor target \<noteq> pcolor piece
                     then [(basicMove (row, col) (row + d, col + dc))\<lparr>isCapture := Some True\<rparr>]
                     else []
                 | None \<Rightarrow> [])
              else [])"
    moreover have "captures = f (-1) @ f 1"
      unfolding captures_def f_def by (simp only: list.map concat.simps append_Nil2)
    ultimately have "x \<in> set (f (-1)) \<or> x \<in> set (f 1)"
      by (simp only: set_append Un_iff)
    then have "\<exists>dc. x \<in> set (if col + dc \<ge> 0 \<and> col + dc < 8 then
                (case cell b (row + d) (col + dc) of
                   Some target \<Rightarrow>
                     if pcolor target \<noteq> pcolor piece
                     then [(basicMove (row, col) (row + d, col + dc))\<lparr>isCapture := Some True\<rparr>]
                     else []
                 | None \<Rightarrow> [])
              else [])"
      unfolding f_def by blast
    then obtain dc where xin0: "x \<in> set (if col + dc \<ge> 0 \<and> col + dc < 8 then
                (case cell b (row + d) (col + dc) of
                   Some target \<Rightarrow>
                     if pcolor target \<noteq> pcolor piece
                     then [(basicMove (row, col) (row + d, col + dc))\<lparr>isCapture := Some True\<rparr>]
                     else []
                 | None \<Rightarrow> [])
              else [])"
      by blast
    have dc': "col + dc \<ge> 0 \<and> col + dc < 8"
    proof (rule ccontr)
      assume "\<not> (col + dc \<ge> 0 \<and> col + dc < 8)"
      with xin0 have "x \<in> set []" by (simp only: if_False simp_thms)
      then show False by (simp only: list.set empty_iff)
    qed
    then have dc: "col + dc \<ge> 0" "col + dc < 8" by blast+
    from xin0 dc' have xin: "x \<in> set (case cell b (row + d) (col + dc) of
                   Some target \<Rightarrow>
                     if pcolor target \<noteq> pcolor piece
                     then [(basicMove (row, col) (row + d, col + dc))\<lparr>isCapture := Some True\<rparr>]
                     else []
                 | None \<Rightarrow> [])"
      by (simp only: if_True simp_thms)
    obtain target where t: "cell b (row + d) (col + dc) = Some target"
    proof (cases "cell b (row + d) (col + dc)")
      case None
      with xin have "x \<in> set []" by (simp only: option.case)
      then show ?thesis by (simp only: list.set empty_iff)
    next
      case (Some target)
      then show ?thesis by (rule that)
    qed
    have xe: "x = (basicMove (row, col) (row + d, col + dc))\<lparr>isCapture := Some True\<rparr>"
    proof (cases "pcolor target \<noteq> pcolor piece")
      case True
      with xin t have "x \<in> set [(basicMove (row, col) (row + d, col + dc))\<lparr>isCapture := Some True\<rparr>]"
        by (simp only: option.case if_True simp_thms)
      then show ?thesis by (simp only: list.set insert_iff empty_iff simp_thms)
    next
      case False
      with xin t have "x \<in> set []" by (simp only: option.case if_False simp_thms)
      then show ?thesis by (simp only: list.set empty_iff)
    qed
    from cell_Some_row[OF len t] dc xe show ?thesis
      by (auto simp: plainMove_def basicMove_def inBounds_def d_def)
  qed
  with m show ?thesis by (auto simp: plainMove_def)
qed

lemma getKnightMoves_plain:
  assumes "m \<in> set (getKnightMoves b row col piece)"
  shows "plainMove row col m \<and> promotion m = None"
  using assms
  by (auto simp: getKnightMoves_def Let_def plainMove_def basicMove_def
      split: if_splits option.splits)

lemma slideMoves_plain:
  "m \<in> set (slideMoves b row col piece dr dc r c) \<Longrightarrow> plainMove row col m \<and> promotion m = None"
proof (induction b row col piece dr dc r c rule: slideMoves.induct)
  case (1 b row col piece dr dc newRow newCol)
  show ?case
  proof (cases "inBounds newRow newCol \<and> (dr \<noteq> 0 \<or> dc \<noteq> 0)")
    case False
    with "1.prems" show ?thesis by (subst (asm) slideMoves.simps) auto
  next
    case True
    show ?thesis
    proof (cases "cell b newRow newCol")
      case None
      with True "1.prems"
      have "m = basicMove (row, col) (newRow, newCol) \<or>
            m \<in> set (slideMoves b row col piece dr dc (newRow + dr) (newCol + dc))"
        by (subst (asm) slideMoves.simps) auto
      with "1.IH"[OF True None] True show ?thesis
        by (auto simp: plainMove_def basicMove_def)
    next
      case (Some target)
      with True "1.prems" show ?thesis
        by (subst (asm) slideMoves.simps) (auto simp: plainMove_def basicMove_def split: if_splits)
    qed
  qed
qed

lemma getSlidingMoves_plain:
  "m \<in> set (getSlidingMoves b row col piece dirs) \<Longrightarrow> plainMove row col m \<and> promotion m = None"
  by (auto simp: getSlidingMoves_def dest: slideMoves_plain)

lemma getKingMoves_cases:
  assumes "m \<in> set (getKingMoves b row col piece)"
  shows "(plainMove row col m \<and> promotion m = None) \<or>
         (col = 4 \<and> \<not> hasMoved piece \<and> \<not> isInCheck b (pcolor piece) \<and>
          (m \<in> set (castleKingside b row col piece) \<or> m \<in> set (castleQueenside b row col piece)))"
  using assms
  by (auto simp: getKingMoves_def Let_def plainMove_def basicMove_def
      split: if_splits option.splits)

section \<open>Plain moves: the hypothetical board and the new board agree\<close>

lemma wouldBeInCheck_plain:
  assumes "isCastle m = None" "\<not> isEnPassant m"
  shows "wouldBeInCheck b m co =
           isInCheck (put (put b (fst (mTo m)) (snd (mTo m)) (cell b (fst (mFrom m)) (snd (mFrom m))))
                        (fst (mFrom m)) (snd (mFrom m)) None) co"
  using assms by (simp add: wouldBeInCheck_def Let_def)

lemma movedBoard_plain_cells:
  assumes "length b = 8" "inBounds row col" "plainMove row col m"
  shows "cell (movedBoard b m piece) r c =
           (if r = fst (mTo m) \<and> c = snd (mTo m) \<and> promotion m \<noteq> None
            then Some \<lparr>ptype = Some (promoType (the (promotion m))), pcolor = pcolor piece, hasMoved = True\<rparr>
            else if r = row \<and> c = col then None
            else if r = fst (mTo m) \<and> c = snd (mTo m) then Some (piece\<lparr>hasMoved := True\<rparr>)
            else cell b r c)"
  using assms
  by (cases "promotion m")
     (simp_all add: movedBoard_def Let_def cell_put length_put plainMove_def inBounds_def)

lemma testBoard_plain_cells:
  assumes "length b = 8" "inBounds row col" "inBounds tr tc"
  shows "cell (put (put b tr tc v) row col None) r c =
           (if r = row \<and> c = col then None else if r = tr \<and> c = tc then v else cell b r c)"
  using assms by (simp add: cell_put length_put inBounds_def)

lemma promoType_not_King: "promoType p \<noteq> King"
  by (cases p) (simp_all add: promoType_def)

lemma movedBoard_plain_check:
  assumes len: "length b = 8" and src: "inBounds row col" and piece: "cell b row col = Some piece"
    and pm: "plainMove row col m"
    and promo: "promotion m \<noteq> None \<Longrightarrow> ptype piece \<noteq> Some King \<and> mTo m \<noteq> (row, col)"
  shows "isInCheck (movedBoard b m piece) (pcolor piece) = wouldBeInCheck b m (pcolor piece)"
proof -
  define tb where "tb = put (put b (fst (mTo m)) (snd (mTo m)) (Some piece)) row col None"
  from pm have dst: "inBounds (fst (mTo m)) (snd (mTo m))" by (simp add: plainMove_def)
  from pm piece have wb: "wouldBeInCheck b m (pcolor piece) = isInCheck tb (pcolor piece)"
    by (simp add: wouldBeInCheck_plain plainMove_def tb_def)
  have tbc: "\<And>r c. cell tb r c =
      (if r = row \<and> c = col then None
       else if r = fst (mTo m) \<and> c = snd (mTo m) then Some piece else cell b r c)"
    unfolding tb_def by (rule testBoard_plain_cells[OF len src dst])
  note nbc = movedBoard_plain_cells[OF len src pm, of piece]
  have "isInCheck (movedBoard b m piece) (pcolor piece) = isInCheck tb (pcolor piece)"
  proof (rule isInCheck_cong)
    fix r c
    show "hasPiece (movedBoard b m piece) r c King (pcolor piece) = hasPiece tb r c King (pcolor piece)"
      using promo by (auto simp: hasPiece_def nbc tbc promoType_not_King prod_eq_iff)
    show "attackView (opponentOf (pcolor piece)) (cell (movedBoard b m piece) r c) =
          attackView (opponentOf (pcolor piece)) (cell tb r c)"
      using promo opponentOf_neq[of "pcolor piece"]
      by (auto simp: attackView_def nbc tbc prod_eq_iff)
  qed
  with wb show ?thesis by simp
qed

section \<open>Castling\<close>

lemma upto_5_6: "[5..6::int] = [5, 6]" and upto_1_3: "[1..3::int] = [1, 2, 3]"
  by code_simp+

lemma castleKingside_iff:
  "m \<in> set (castleKingside b row 4 piece) \<longleftrightarrow>
     m = (basicMove (row, 4) (row, 6))\<lparr>isCastle := Some Kingside\<rparr> \<and>
     (\<exists>rook. cell b row 7 = Some rook \<and> ptype rook = Some Rook \<and> pcolor rook = pcolor piece \<and>
             \<not> hasMoved rook) \<and>
     cell b row 5 = None \<and> cell b row 6 = None \<and>
     \<not> isSquareUnderAttack (kingStep b row 4 piece row 5) row 5 (opponentOf (pcolor piece)) \<and>
     \<not> isSquareUnderAttack (kingStep b row 4 piece row 6) row 6 (opponentOf (pcolor piece))"
  by (cases "cell b row 7") (auto simp: castleKingside_def upto_5_6)

lemma castleQueenside_iff:
  "m \<in> set (castleQueenside b row 4 piece) \<longleftrightarrow>
     m = (basicMove (row, 4) (row, 2))\<lparr>isCastle := Some Queenside\<rparr> \<and>
     (\<exists>rook. cell b row 0 = Some rook \<and> ptype rook = Some Rook \<and> pcolor rook = pcolor piece \<and>
             \<not> hasMoved rook) \<and>
     cell b row 1 = None \<and> cell b row 2 = None \<and> cell b row 3 = None \<and>
     \<not> isSquareUnderAttack (kingStep b row 4 piece row 3) row 3 (opponentOf (pcolor piece)) \<and>
     \<not> isSquareUnderAttack (kingStep b row 4 piece row 2) row 2 (opponentOf (pcolor piece))"
  by (cases "cell b row 0") (auto simp: castleQueenside_def upto_1_3)

lemma rowAttack_castled_kingside:
  assumes "cell x r 5 = Some rk" "pcolor rk \<noteq> byColor" "cell x r 7 = None"
  shows "\<not> rowAttack x r 6 byColor"
proof -
  have w: "\<not> slideAttack x byColor 0 (-1) r 5"
    using assms(1,2) by (rule slideAttack_blocked)
  have "\<not> slideAttack x byColor 0 1 r 8" by (rule slideAttack_out) (simp add: inBounds_def)
  then have e: "\<not> slideAttack x byColor 0 1 r 7"
    using assms(3) slideAttack_None[of r 7 0 1 x byColor] slideAttack_out[of r 7 x byColor 0 1]
    by (cases "inBounds r 7") auto
  from w e assms show ?thesis by (simp add: rowAttack_def hasPiece_def)
qed

lemma rowAttack_castled_queenside:
  assumes "cell x r 3 = Some rk" "pcolor rk \<noteq> byColor" "cell x r 1 = None" "cell x r 0 = None"
  shows "\<not> rowAttack x r 2 byColor"
proof -
  have e: "\<not> slideAttack x byColor 0 1 r 3"
    using assms(1,2) by (rule slideAttack_blocked)
  have "\<not> slideAttack x byColor 0 (-1) r (-1)" by (rule slideAttack_out) (simp add: inBounds_def)
  then have "\<not> slideAttack x byColor 0 (-1) r 0"
    using assms(4) slideAttack_None[of r 0 0 "-1" x byColor] slideAttack_out[of r 0 x byColor 0 "-1"]
    by (cases "inBounds r 0") auto
  then have w: "\<not> slideAttack x byColor 0 (-1) r 1"
    using assms(3) slideAttack_None[of r 1 0 "-1" x byColor] slideAttack_out[of r 1 x byColor 0 "-1"]
    by (cases "inBounds r 1") auto
  from w e assms show ?thesis by (simp add: rowAttack_def hasPiece_def)
qed

lemma kingStep_cells:
  assumes "length b = 8" "inBounds row col" "inBounds nr nc"
  shows "cell (kingStep b row col piece nr nc) r c =
           (if r = row \<and> c = col then None else if r = nr \<and> c = nc then Some piece else cell b r c)"
  using assms by (simp add: kingStep_def cell_put length_put inBounds_def)

lemma movedBoard_kingside_cells:
  assumes "length b = 8" "0 \<le> row" "row < 8" "cell b row 7 = Some rook"
  shows "cell (movedBoard b (castleMove row Kingside) piece) r c =
           (if r = row \<and> c = 7 then None
            else if r = row \<and> c = 5 then Some (rook\<lparr>hasMoved := True\<rparr>)
            else if r = row \<and> c = 4 then None
            else if r = row \<and> c = 6 then Some (piece\<lparr>hasMoved := True\<rparr>)
            else cell b r c)"
  using assms
  by (simp add: movedBoard_def handleCastle_def castleMove_def basicMove_def Let_def cell_put length_put)

lemma movedBoard_queenside_cells:
  assumes "length b = 8" "0 \<le> row" "row < 8" "cell b row 0 = Some rook"
  shows "cell (movedBoard b (castleMove row Queenside) piece) r c =
           (if r = row \<and> c = 0 then None
            else if r = row \<and> c = 3 then Some (rook\<lparr>hasMoved := True\<rparr>)
            else if r = row \<and> c = 4 then None
            else if r = row \<and> c = 2 then Some (piece\<lparr>hasMoved := True\<rparr>)
            else cell b r c)"
  using assms
  by (simp add: movedBoard_def handleCastle_def castleMove_def basicMove_def Let_def cell_put length_put)

lemma rowAttack_parts:
  "\<not> rowAttack b r c byColor \<Longrightarrow>
     \<not> slideAttack b byColor 0 (-1) r (c - 1) \<and> \<not> slideAttack b byColor 0 1 r (c + 1)"
  by (simp add: rowAttack_def)

lemma not_attacked_parts:
  "\<not> isSquareUnderAttack b r c byColor \<Longrightarrow>
     \<not> offRowAttack b r c byColor \<and> \<not> slideAttack b byColor 0 (-1) r (c - 1) \<and>
     \<not> slideAttack b byColor 0 1 r (c + 1)"
  by (simp add: attack_split rowAttack_def)

lemma slide_west_through:
  assumes "inBounds r c" "cell x r c = None"
  shows "slideAttack x byColor 0 (-1) r c = slideAttack x byColor 0 (-1) r (c - 1)"
  using slideAttack_None[OF assms(1) _ assms(2), of 0 "-1" byColor] by simp

lemma slide_east_through:
  assumes "inBounds r c" "cell x r c = None"
  shows "slideAttack x byColor 0 1 r c = slideAttack x byColor 0 1 r (c + 1)"
  using slideAttack_None[OF assms(1) _ assms(2), of 0 1 byColor] by simp

lemma slide_west_cong:
  assumes "\<And>c'. c' \<le> c \<Longrightarrow> cell x r c' = cell y r c'"
  shows "slideAttack x byColor 0 (-1) r c = slideAttack y byColor 0 (-1) r c"
  by (rule slideAttack_cong[where P = "\<lambda>r' c'. r' = r \<and> c' \<le> c"]) (auto simp: assms)

lemma slide_east_cong:
  assumes "\<And>c'. c \<le> c' \<Longrightarrow> cell x r c' = cell y r c'"
  shows "slideAttack x byColor 0 1 r c = slideAttack y byColor 0 1 r c"
  by (rule slideAttack_cong[where P = "\<lambda>r' c'. r' = r \<and> c \<le> c'"]) (auto simp: assms)


lemma castled_kingside_safe:
  assumes r: "0 \<le> r" "r < 8"
    and cells: "\<And>r' c'. cell x r' c' =
           (if r' = r \<and> c' = 7 then None
            else if r' = r \<and> c' = 5 then Some rk'
            else if r' = r \<and> c' = 4 then None
            else if r' = r \<and> c' = 6 then Some k'
            else cell b r' c')"
    and k': "ptype k' = Some King" "pcolor k' = Some co"
    and rk': "ptype rk' = Some Rook" "pcolor rk' = Some co"
    and king: "hasPiece b r 4 King (Some co)" and kings: "kingCount b co \<le> 1"
    and off: "\<not> offRowAttack b r 6 (opponentOf (Some co))"
  shows "\<not> isInCheck x (Some co)"
proof -
  let ?opp = "opponentOf (Some co)"
  from r have ib: "inBounds r 4" "inBounds r 6" by (simp_all add: inBounds_def)
  have k6: "hasPiece x r 6 King (Some co)"
    using k' by (simp add: hasPiece_def cells)
  have uniq: "r' = r \<and> c' = 6" if "inBounds r' c'" "hasPiece x r' c' King (Some co)" for r' c'
  proof (rule ccontr)
    assume n: "\<not> (r' = r \<and> c' = 6)"
    with that(2) rk' have "hasPiece b r' c' King (Some co)" "\<not> (r' = r \<and> c' = 4)"
      by (auto simp: hasPiece_def cells split: if_splits)
    with only_king[OF kings ib(1) king that(1)] show False by blast
  qed
  have "isInCheck x (Some co) = isSquareUnderAttack x r 6 ?opp"
    by (rule isInCheck_king_at[OF ib(2) k6]) (rule uniq)
  moreover have "\<not> rowAttack x r 6 ?opp"
    by (rule rowAttack_castled_kingside[where rk = rk'])
       (simp_all add: cells rk' opponentOf_def)
  moreover have "offRowAttack x r 6 ?opp = offRowAttack b r 6 ?opp"
    by (rule offRowAttack_cong) (simp add: cells)
  ultimately show ?thesis
    using off by (simp add: attack_split)
qed

lemma castled_queenside_safe:
  assumes r: "0 \<le> r" "r < 8"
    and cells: "\<And>r' c'. cell x r' c' =
           (if r' = r \<and> c' = 0 then None
            else if r' = r \<and> c' = 3 then Some rk'
            else if r' = r \<and> c' = 4 then None
            else if r' = r \<and> c' = 2 then Some k'
            else cell b r' c')"
    and k': "ptype k' = Some King" "pcolor k' = Some co"
    and rk': "ptype rk' = Some Rook" "pcolor rk' = Some co"
    and king: "hasPiece b r 4 King (Some co)" and kings: "kingCount b co \<le> 1"
    and empty: "cell b r 1 = None"
    and off: "\<not> offRowAttack b r 2 (opponentOf (Some co))"
  shows "\<not> isInCheck x (Some co)"
proof -
  let ?opp = "opponentOf (Some co)"
  from r have ib: "inBounds r 4" "inBounds r 2" by (simp_all add: inBounds_def)
  have k2: "hasPiece x r 2 King (Some co)"
    using k' by (simp add: hasPiece_def cells)
  have uniq: "r' = r \<and> c' = 2" if "inBounds r' c'" "hasPiece x r' c' King (Some co)" for r' c'
  proof (rule ccontr)
    assume n: "\<not> (r' = r \<and> c' = 2)"
    with that(2) rk' have "hasPiece b r' c' King (Some co)" "\<not> (r' = r \<and> c' = 4)"
      by (auto simp: hasPiece_def cells split: if_splits)
    with only_king[OF kings ib(1) king that(1)] show False by blast
  qed
  have "isInCheck x (Some co) = isSquareUnderAttack x r 2 ?opp"
    by (rule isInCheck_king_at[OF ib(2) k2]) (rule uniq)
  moreover have "\<not> rowAttack x r 2 ?opp"
    by (rule rowAttack_castled_queenside[where rk = rk'])
       (simp_all add: cells rk' empty opponentOf_def)
  moreover have "offRowAttack x r 2 ?opp = offRowAttack b r 2 ?opp"
    by (rule offRowAttack_cong) (simp add: cells)
  ultimately show ?thesis
    using off by (simp add: attack_split)
qed

lemma king_square_safe:
  assumes r: "0 \<le> r" "r < 8"
    and king: "hasPiece b r 4 King (Some co)" and kings: "kingCount b co \<le> 1"
    and nocheck: "\<not> isInCheck b (Some co)"
  shows "\<not> isSquareUnderAttack b r 4 (opponentOf (Some co))"
proof -
  from r have ib: "inBounds r 4" by (simp add: inBounds_def)
  have "isInCheck b (Some co) = isSquareUnderAttack b r 4 (opponentOf (Some co))"
    by (rule isInCheck_king_at[OF ib king]) (rule only_king[OF kings ib king])
  with nocheck show ?thesis by simp
qed

lemma kingStep_kingside_safe:
  assumes len: "length b = 8" and r: "0 \<le> r" "r < 8"
    and king: "cell b r 4 = Some k" and rook: "cell b r 7 = Some rk" "pcolor rk = Some co"
    and empty: "cell b r 5 = None" "cell b r 6 = None"
    and a4: "\<not> isSquareUnderAttack b r 4 (opponentOf (Some co))"
    and a5: "\<not> isSquareUnderAttack b r 5 (opponentOf (Some co))"
    and a6: "\<not> isSquareUnderAttack b r 6 (opponentOf (Some co))"
  shows "\<not> isSquareUnderAttack (kingStep b r 4 k r 5) r 5 (opponentOf (Some co)) \<and>
         \<not> isSquareUnderAttack (kingStep b r 4 k r 6) r 6 (opponentOf (Some co))"
proof -
  let ?opp = "opponentOf (Some co)"
  from r have ib: "inBounds r 3" "inBounds r 4" "inBounds r 5" "inBounds r 6" "inBounds r 7"
    by (simp_all add: inBounds_def)
  note c5 = kingStep_cells[OF len ib(2) ib(3), of k]
  note c6 = kingStep_cells[OF len ib(2) ib(4), of k]
  from not_attacked_parts[OF a4] have w3: "\<not> slideAttack b ?opp 0 (-1) r 3" by simp
  from not_attacked_parts[OF a5] have e6: "\<not> slideAttack b ?opp 0 1 r 6"
    and off5: "\<not> offRowAttack b r 5 ?opp" by simp_all
  from not_attacked_parts[OF a6] have off6: "\<not> offRowAttack b r 6 ?opp" by simp
  have "\<not> isSquareUnderAttack (kingStep b r 4 k r 5) r 5 ?opp"
  proof -
    let ?x = "kingStep b r 4 k r 5"
    have "offRowAttack ?x r 5 ?opp = offRowAttack b r 5 ?opp"
      by (rule offRowAttack_cong) (simp add: c5)
    moreover have "slideAttack ?x ?opp 0 (-1) r 3 = slideAttack b ?opp 0 (-1) r 3"
      by (rule slide_west_cong) (simp add: c5)
    then have "\<not> slideAttack ?x ?opp 0 (-1) r 4"
      using w3 slide_west_through[OF ib(2), of ?x ?opp] by (simp add: c5)
    moreover have "slideAttack ?x ?opp 0 1 r 6 = slideAttack b ?opp 0 1 r 6"
      by (rule slide_east_cong) (simp add: c5)
    ultimately show ?thesis
      using off5 e6 empty by (simp add: attack_split rowAttack_def hasPiece_def c5)
  qed
  moreover have "\<not> isSquareUnderAttack (kingStep b r 4 k r 6) r 6 ?opp"
  proof -
    let ?x = "kingStep b r 4 k r 6"
    have "offRowAttack ?x r 6 ?opp = offRowAttack b r 6 ?opp"
      by (rule offRowAttack_cong) (simp add: c6)
    moreover have "slideAttack ?x ?opp 0 (-1) r 3 = slideAttack b ?opp 0 (-1) r 3"
      by (rule slide_west_cong) (simp add: c6)
    then have "\<not> slideAttack ?x ?opp 0 (-1) r 4"
      using w3 slide_west_through[OF ib(2), of ?x ?opp] by (simp add: c6)
    then have "\<not> slideAttack ?x ?opp 0 (-1) r 5"
      using slide_west_through[OF ib(3), of ?x ?opp] empty by (simp add: c6)
    moreover have "\<not> slideAttack ?x ?opp 0 1 r 7"
      by (rule slideAttack_blocked[where piece = rk]) (simp_all add: c6 rook opponentOf_def)
    ultimately show ?thesis
      using off6 empty rook by (simp add: attack_split rowAttack_def hasPiece_def c6 opponentOf_def)
  qed
  ultimately show ?thesis by simp
qed

lemma castle_kingside_safe:
  assumes len: "length b = 8" and row: "0 \<le> row" "row < 8"
    and piece: "cell b row 4 = Some piece" "ptype piece = Some King" "pcolor piece = Some co"
    and kings: "kingCount b co \<le> 1"
    and m: "m \<in> set (castleKingside b row 4 piece)"
  shows "\<not> isInCheck (movedBoard b m piece) (Some co)"
proof -
  let ?opp = "opponentOf (Some co)"
  from m piece obtain rook where mv: "m = castleMove row Kingside"
    and rook: "cell b row 7 = Some rook" "pcolor rook = Some co" "ptype rook = Some Rook"
    and safe: "\<not> isSquareUnderAttack (kingStep b row 4 piece row 6) row 6 ?opp"
    unfolding castleKingside_iff castleMove_def by auto
  from row have ib: "inBounds row 4" "inBounds row 6" by (simp_all add: inBounds_def)
  from piece have k4: "hasPiece b row 4 King (Some co)" by (simp add: hasPiece_def)
  have "offRowAttack (kingStep b row 4 piece row 6) row 6 ?opp = offRowAttack b row 6 ?opp"
    by (rule offRowAttack_cong) (simp add: kingStep_cells[OF len ib])
  with safe have off: "\<not> offRowAttack b row 6 ?opp" by (simp add: attack_split)
  show ?thesis
    unfolding mv
    by (rule castled_kingside_safe[OF row movedBoard_kingside_cells[OF len row rook(1)] _ _ _ _ k4 kings off])
       (simp_all add: piece rook)
qed

lemma castle_queenside_safe:
  assumes len: "length b = 8" and row: "0 \<le> row" "row < 8"
    and piece: "cell b row 4 = Some piece" "ptype piece = Some King" "pcolor piece = Some co"
    and kings: "kingCount b co \<le> 1"
    and m: "m \<in> set (castleQueenside b row 4 piece)"
  shows "\<not> isInCheck (movedBoard b m piece) (Some co)"
proof -
  let ?opp = "opponentOf (Some co)"
  from m piece obtain rook where mv: "m = castleMove row Queenside"
    and rook: "cell b row 0 = Some rook" "pcolor rook = Some co" "ptype rook = Some Rook"
    and empty: "cell b row 1 = None"
    and safe: "\<not> isSquareUnderAttack (kingStep b row 4 piece row 2) row 2 ?opp"
    unfolding castleQueenside_iff castleMove_def by auto
  from row have ib: "inBounds row 4" "inBounds row 2" by (simp_all add: inBounds_def)
  from piece have k4: "hasPiece b row 4 King (Some co)" by (simp add: hasPiece_def)
  have "offRowAttack (kingStep b row 4 piece row 2) row 2 ?opp = offRowAttack b row 2 ?opp"
    by (rule offRowAttack_cong) (simp add: kingStep_cells[OF len ib])
  with safe have off: "\<not> offRowAttack b row 2 ?opp" by (simp add: attack_split)
  show ?thesis
    unfolding mv
    by (rule castled_queenside_safe[OF row movedBoard_queenside_cells[OF len row rook(1)] _ _ _ _ k4 kings empty off])
       (simp_all add: piece rook)
qed

lemma kingStep_queenside_safe:
  assumes len: "length b = 8" and r: "0 \<le> r" "r < 8"
    and king: "cell b r 4 = Some k"
    and empty: "cell b r 1 = None" "cell b r 2 = None" "cell b r 3 = None"
    and a4: "\<not> isSquareUnderAttack b r 4 (opponentOf (Some co))"
    and a3: "\<not> isSquareUnderAttack b r 3 (opponentOf (Some co))"
    and a2: "\<not> isSquareUnderAttack b r 2 (opponentOf (Some co))"
  shows "\<not> isSquareUnderAttack (kingStep b r 4 k r 3) r 3 (opponentOf (Some co)) \<and>
         \<not> isSquareUnderAttack (kingStep b r 4 k r 2) r 2 (opponentOf (Some co))"
proof -
  let ?opp = "opponentOf (Some co)"
  from r have ib: "inBounds r 1" "inBounds r 2" "inBounds r 3" "inBounds r 4" "inBounds r 5"
    by (simp_all add: inBounds_def)
  note c3 = kingStep_cells[OF len ib(4) ib(3), of k]
  note c2 = kingStep_cells[OF len ib(4) ib(2), of k]
  from not_attacked_parts[OF a4] have e5: "\<not> slideAttack b ?opp 0 1 r 5" by simp
  from not_attacked_parts[OF a3] have w2: "\<not> slideAttack b ?opp 0 (-1) r 2"
    and off3: "\<not> offRowAttack b r 3 ?opp" by simp_all
  from not_attacked_parts[OF a2] have w1: "\<not> slideAttack b ?opp 0 (-1) r 1"
    and off2: "\<not> offRowAttack b r 2 ?opp" by simp_all
  have "\<not> isSquareUnderAttack (kingStep b r 4 k r 3) r 3 ?opp"
  proof -
    let ?x = "kingStep b r 4 k r 3"
    have "offRowAttack ?x r 3 ?opp = offRowAttack b r 3 ?opp"
      by (rule offRowAttack_cong) (simp add: c3)
    moreover have "slideAttack ?x ?opp 0 1 r 5 = slideAttack b ?opp 0 1 r 5"
      by (rule slide_east_cong) (simp add: c3)
    then have "\<not> slideAttack ?x ?opp 0 1 r 4"
      using e5 slide_east_through[OF ib(4), of ?x ?opp] by (simp add: c3)
    moreover have "slideAttack ?x ?opp 0 (-1) r 2 = slideAttack b ?opp 0 (-1) r 2"
      by (rule slide_west_cong) (simp add: c3)
    ultimately show ?thesis
      using off3 w2 empty by (simp add: attack_split rowAttack_def hasPiece_def c3)
  qed
  moreover have "\<not> isSquareUnderAttack (kingStep b r 4 k r 2) r 2 ?opp"
  proof -
    let ?x = "kingStep b r 4 k r 2"
    have "offRowAttack ?x r 2 ?opp = offRowAttack b r 2 ?opp"
      by (rule offRowAttack_cong) (simp add: c2)
    moreover have "slideAttack ?x ?opp 0 1 r 5 = slideAttack b ?opp 0 1 r 5"
      by (rule slide_east_cong) (simp add: c2)
    then have "\<not> slideAttack ?x ?opp 0 1 r 4"
      using e5 slide_east_through[OF ib(4), of ?x ?opp] by (simp add: c2)
    then have "\<not> slideAttack ?x ?opp 0 1 r 3"
      using slide_east_through[OF ib(3), of ?x ?opp] empty by (simp add: c2)
    moreover have "slideAttack ?x ?opp 0 (-1) r 1 = slideAttack b ?opp 0 (-1) r 1"
      by (rule slide_west_cong) (simp add: c2)
    ultimately show ?thesis
      using off2 w1 empty by (simp add: attack_split rowAttack_def hasPiece_def c2)
  qed
  ultimately show ?thesis by simp
qed

lemma wouldBeInCheck_kingside_cells:
  assumes len: "length b = 8" and r: "0 \<le> r" "r < 8"
    and rank: "(if co = Some White then 7 else 0) = r"
  shows "\<exists>x. wouldBeInCheck b (castleMove r Kingside) co = isInCheck x co \<and>
           (\<forall>r' c'. cell x r' c' =
              (if r' = r \<and> c' = 7 then None
               else if r' = r \<and> c' = 5 then cell b r 7
               else if r' = r \<and> c' = 4 then None
               else if r' = r \<and> c' = 6 then cell b r 4
               else cell b r' c'))"
  using len r rank
  by (intro exI[where x = "put (put (put (put b r 6 (cell b r 4)) r 4 None) r 5 (cell b r 7)) r 7 None"])
     (simp add: wouldBeInCheck_def castleMove_def basicMove_def Let_def cell_put length_put)

lemma wouldBeInCheck_queenside_cells:
  assumes len: "length b = 8" and r: "0 \<le> r" "r < 8"
    and rank: "(if co = Some White then 7 else 0) = r"
  shows "\<exists>x. wouldBeInCheck b (castleMove r Queenside) co = isInCheck x co \<and>
           (\<forall>r' c'. cell x r' c' =
              (if r' = r \<and> c' = 0 then None
               else if r' = r \<and> c' = 3 then cell b r 0
               else if r' = r \<and> c' = 4 then None
               else if r' = r \<and> c' = 2 then cell b r 4
               else cell b r' c'))"
  using len r rank
  by (intro exI[where x = "put (put (put (put b r 2 (cell b r 4)) r 4 None) r 3 (cell b r 0)) r 0 None"])
     (simp add: wouldBeInCheck_def castleMove_def basicMove_def Let_def cell_put length_put)

section \<open>Legality of the valid moves\<close>

lemma pseudo_moves_cases:
  assumes len: "length b = 8" and sq: "inBounds row col"
    and m: "m \<in> set (case ptype piece of
                    None \<Rightarrow> []
                  | Some Pawn \<Rightarrow> getPawnMoves b row col piece
                  | Some Knight \<Rightarrow> getKnightMoves b row col piece
                  | Some Bishop \<Rightarrow> getBishopMoves b row col piece
                  | Some Rook \<Rightarrow> getRookMoves b row col piece
                  | Some Queen \<Rightarrow> getQueenMoves b row col piece
                  | Some King \<Rightarrow> getKingMoves b row col piece)"
  shows "(plainMove row col m \<and> (promotion m \<noteq> None \<longrightarrow> ptype piece \<noteq> Some King \<and> mTo m \<noteq> (row, col))) \<or>
         (ptype piece = Some King \<and> col = 4 \<and> \<not> hasMoved piece \<and> \<not> isInCheck b (pcolor piece) \<and>
          (m \<in> set (castleKingside b row col piece) \<or> m \<in> set (castleQueenside b row col piece)))"
proof (cases "ptype piece")
  case None
  with m show ?thesis by simp
next
  case (Some t)
  show ?thesis
  proof (cases t)
    case Pawn
    with Some m have "m \<in> set (getPawnMoves b row col piece)" by simp
    from getPawnMoves_plain[OF len sq this] Some Pawn show ?thesis by (auto simp: prod_eq_iff)
  next
    case Knight
    with Some m have "m \<in> set (getKnightMoves b row col piece)" by simp
    from getKnightMoves_plain[OF this] show ?thesis by simp
  next
    case Bishop
    with Some m getSlidingMoves_plain[of m b row col piece] show ?thesis
      by (simp add: getBishopMoves_def)
  next
    case Rook
    with Some m getSlidingMoves_plain[of m b row col piece] show ?thesis
      by (simp add: getRookMoves_def)
  next
    case Queen
    with Some m getSlidingMoves_plain[of m b row col piece] show ?thesis
      by (simp add: getQueenMoves_def)
  next
    case King
    with Some m have "m \<in> set (getKingMoves b row col piece)" by simp
    from getKingMoves_cases[OF this] Some King show ?thesis by auto
  qed
qed

text \<open>
  Claim C1: on a board of the data model, an 8\<times>8 grid with one king of each colour,
  every move returned by \<^verbatim>\<open>getValidMoves\<close> for a square of the board is applied by
  \<^verbatim>\<open>makeMove\<close> to a board on which the mover's colour is not in check according to
  \<^verbatim>\<open>isInCheck\<close>. Of the kings the proof only needs that the mover's colour has at most
  one.
\<close>

theorem valid_moves_keep_king_safe:
  assumes wf: "wfBoard b" and sq: "inBounds row col"
    and piece: "cell b row col = Some piece" and colour: "pcolor piece = Some co"
    and kings: "kingCount b co \<le> 1"
    and ms: "getValidMoves b row col = Inr ms" and m: "m \<in> set ms"
  shows "\<exists>res nb. makeMove b m = Inr res \<and> valid res \<and> newBoard res = Some nb \<and>
           \<not> isInCheck nb (Some co)"
proof -
  from wf have len: "length b = 8" by (rule wfBoard_length)
  from sq have row: "0 \<le> row" "row < 8" by (simp_all add: inBounds_def)
  from ms m row piece colour len
  have gen: "m \<in> set (case ptype piece of
                    None \<Rightarrow> []
                  | Some Pawn \<Rightarrow> getPawnMoves b row col piece
                  | Some Knight \<Rightarrow> getKnightMoves b row col piece
                  | Some Bishop \<Rightarrow> getBishopMoves b row col piece
                  | Some Rook \<Rightarrow> getRookMoves b row col piece
                  | Some Queen \<Rightarrow> getQueenMoves b row col piece
                  | Some King \<Rightarrow> getKingMoves b row col piece)"
    and legal: "\<not> wouldBeInCheck b m (Some co)"
    by (auto simp: getValidMoves_def isRow_8)
  from pseudo_moves_cases[OF len sq gen]
  have safe: "mFrom m = (row, col) \<and> 0 \<le> fst (mTo m) \<and> fst (mTo m) < 8 \<and>
              \<not> isInCheck (movedBoard b m piece) (Some co)"
  proof
    assume pm: "plainMove row col m \<and>
                (promotion m \<noteq> None \<longrightarrow> ptype piece \<noteq> Some King \<and> mTo m \<noteq> (row, col))"
    then have "isInCheck (movedBoard b m piece) (pcolor piece) = wouldBeInCheck b m (pcolor piece)"
      by (intro movedBoard_plain_check[OF len sq piece]) auto
    with legal colour pm show ?thesis by (simp add: plainMove_def inBounds_def)
  next
    assume c: "ptype piece = Some King \<and> col = 4 \<and> \<not> hasMoved piece \<and>
               \<not> isInCheck b (pcolor piece) \<and>
               (m \<in> set (castleKingside b row col piece) \<or> m \<in> set (castleQueenside b row col piece))"
    then have col: "col = 4" and king: "ptype piece = Some King" by simp_all
    from c col consider "m \<in> set (castleKingside b row 4 piece)" | "m \<in> set (castleQueenside b row 4 piece)"
      by auto
    then show ?thesis
    proof cases
      case 1
      from castle_kingside_safe[OF len row piece[unfolded col] king colour kings 1] 1 row
      show ?thesis by (simp add: castleKingside_iff col basicMove_def)
    next
      case 2
      from castle_queenside_safe[OF len row piece[unfolded col] king colour kings 2] 2 row
      show ?thesis by (simp add: castleQueenside_iff col basicMove_def)
    qed
  qed
  then have src: "0 \<le> fst (mFrom m)" "fst (mFrom m) < 8" "0 \<le> fst (mTo m)" "fst (mTo m) < 8"
    and p: "cell b (fst (mFrom m)) (snd (mFrom m)) = Some piece"
    using row piece by simp_all
  from makeMove_piece[OF len src p] safe show ?thesis by auto
qed

lemma pinnedRook_moves:
  "getValidMoves pinnedRookBoard 6 4 =
     Inr [basicMove (6, 4) (5, 4), basicMove (6, 4) (4, 4), basicMove (6, 4) (3, 4),
          basicMove (6, 4) (2, 4), basicMove (6, 4) (1, 4),
          (basicMove (6, 4) (0, 4))\<lparr>isCapture := Some True\<rparr>]"
  by code_simp

theorem valid_moves_keep_king_safe_witness:
  "wfBoard pinnedRookBoard \<and> inBounds 6 4 \<and> cell pinnedRookBoard 6 4 = pc Rook White \<and>
   kingCount pinnedRookBoard White \<le> 1 \<and>
   (\<exists>ms. getValidMoves pinnedRookBoard 6 4 = Inr ms \<and> basicMove (6, 4) (3, 4) \<in> set ms) \<and>
   (\<exists>res nb. makeMove pinnedRookBoard (basicMove (6, 4) (3, 4)) = Inr res \<and> valid res \<and>
      newBoard res = Some nb \<and> \<not> isInCheck nb (Some White))"
proof -
  have wf: "wfBoard pinnedRookBoard" by code_simp
  have sq: "inBounds 6 4" by (simp add: inBounds_def)
  have c: "cell pinnedRookBoard 6 4 = pc Rook White" by code_simp
  then have piece: "cell pinnedRookBoard 6 4 = Some \<lparr>ptype = Some Rook, pcolor = Some White, hasMoved = False\<rparr>"
    by (simp add: pc_def)
  have kings: "kingCount pinnedRookBoard White \<le> 1" by code_simp
  have m: "basicMove (6, 4) (3, 4) \<in> set [basicMove (6, 4) (5, 4), basicMove (6, 4) (4, 4),
          basicMove (6, 4) (3, 4), basicMove (6, 4) (2, 4), basicMove (6, 4) (1, 4),
          (basicMove (6, 4) (0, 4))\<lparr>isCapture := Some True\<rparr>]"
    by simp
  from valid_moves_keep_king_safe[OF wf sq piece _ kings pinnedRook_moves m]
  have "\<exists>res nb. makeMove pinnedRookBoard (basicMove (6, 4) (3, 4)) = Inr res \<and> valid res \<and>
      newBoard res = Some nb \<and> \<not> isInCheck nb (Some White)"
    by simp
  with wf sq c kings pinnedRook_moves m show ?thesis by simp
qed

text \<open>
  The hypothesis on the kings is used. Outside the data model, with a second king of the
  colour on the board, \<^verbatim>\<open>wouldBeInCheck\<close> and \<^verbatim>\<open>makeMove\<close> can disagree on a
  castle: the first moves the rook of row 0 for a black castle, whatever row the king
  is on, while \<^verbatim>\<open>handleCastle\<close> moves the rook of the king's row. Here the king of
  e5 castles, and the bishop then attacks the king of h8, the first black king
  \<^verbatim>\<open>isInCheck\<close> finds.
\<close>

lemma castle_with_second_king:
  "wfBoard twoKingsBoard \<and> kingCount twoKingsBoard Black = 2 \<and>
   cell twoKingsBoard 3 4 = pc King Black \<and>
   getValidMoves twoKingsBoard 3 4 = Inr [basicMove (3, 4) (4, 3), castleMove 3 Kingside] \<and>
   madeBoard twoKingsBoard (castleMove 3 Kingside) = Some twoKingsCastled \<and>
   isInCheck twoKingsCastled (Some Black)"
  by code_simp

section \<open>Castling is offered and applied\<close>

lemma castle_in_getKingMoves:
  assumes "\<not> hasMoved piece" "\<not> isInCheck b (pcolor piece)"
    and "m \<in> set (castleKingside b row 4 piece) \<or> m \<in> set (castleQueenside b row 4 piece)"
  shows "m \<in> set (getKingMoves b row 4 piece)"
  using assms by (auto simp: getKingMoves_def)

lemma king_valid_move:
  assumes "length b = 8"
    and "0 \<le> row" "row < 8" "cell b row col = Some piece" "ptype piece = Some King"
    and "m \<in> set (getKingMoves b row col piece)" "\<not> wouldBeInCheck b m (pcolor piece)"
  shows "\<exists>ms. getValidMoves b row col = Inr ms \<and> m \<in> set ms"
  using assms by (simp add: getValidMoves_def isRow_8)

text \<open>
  Claim C5: the king of a colour stands unmoved on column 4 of its back rank and is the
  only king of its colour, the rook of the side stands unmoved on its home square, the
  squares between them are empty, the king is not in check and the squares it crosses
  are not attacked. Then \<^verbatim>\<open>getValidMoves\<close> on the king's square returns the castle
  move of that side, and \<^verbatim>\<open>makeMove\<close> applies it: the king stands on column 6 (or
  2), the rook beside it on column 5 (or 3), both marked as moved, and their home
  squares are empty.
\<close>

theorem castling_offered_and_applied:
  assumes wf: "wfBoard b"
    and king: "cell b (backRank co) 4 = Some k" "ptype k = Some King" "pcolor k = Some co"
      "\<not> hasMoved k"
    and one: "kingCount b co = 1"
    and rook: "cell b (backRank co) (rookHome side) = Some rk" "ptype rk = Some Rook"
      "pcolor rk = Some co" "\<not> hasMoved rk"
    and empty: "\<forall>c \<in> set (betweenCols side). cell b (backRank co) c = None"
    and nocheck: "\<not> isInCheck b (Some co)"
    and transit: "\<forall>c \<in> set (transitCols side).
                    \<not> isSquareUnderAttack b (backRank co) c (opponentOf (Some co))"
  shows "\<exists>ms res nb.
           getValidMoves b (backRank co) 4 = Inr ms \<and> castleMove (backRank co) side \<in> set ms \<and>
           makeMove b (castleMove (backRank co) side) = Inr res \<and> valid res \<and>
           newBoard res = Some nb \<and>
           cell nb (backRank co) (kingDest side) = Some (k\<lparr>hasMoved := True\<rparr>) \<and>
           cell nb (backRank co) (rookDest side) = Some (rk\<lparr>hasMoved := True\<rparr>) \<and>
           cell nb (backRank co) 4 = None \<and> cell nb (backRank co) (rookHome side) = None"
proof -
  define r where "r = backRank co"
  let ?opp = "opponentOf (Some co)"
  let ?m = "castleMove r side"
  from wf have len: "length b = 8" by (rule wfBoard_length)
  have r: "0 \<le> r" "r < 8" by (simp_all add: r_def backRank_def)
  have rank: "(if Some co = Some White then 7 else 0) = r" by (simp add: r_def backRank_def)
  from one have kings: "kingCount b co \<le> 1" by simp
  from king have k4: "hasPiece b r 4 King (Some co)" by (simp add: hasPiece_def r_def)
  note a4 = king_square_safe[OF r k4 kings nocheck]
  have src: "0 \<le> fst (mFrom ?m)" "fst (mFrom ?m) < 8" "0 \<le> fst (mTo ?m)" "fst (mTo ?m) < 8"
    and p: "cell b (fst (mFrom ?m)) (snd (mFrom ?m)) = Some k"
    using r king by (simp_all add: castleMove_def basicMove_def r_def)
  from makeMove_piece[OF len src p] obtain res
    where res: "makeMove b ?m = Inr res" "valid res" "newBoard res = Some (movedBoard b ?m k)"
    by auto
  have "\<exists>ms. getValidMoves b r 4 = Inr ms \<and> ?m \<in> set ms \<and>
          cell (movedBoard b ?m k) r (kingDest side) = Some (k\<lparr>hasMoved := True\<rparr>) \<and>
          cell (movedBoard b ?m k) r (rookDest side) = Some (rk\<lparr>hasMoved := True\<rparr>) \<and>
          cell (movedBoard b ?m k) r 4 = None \<and> cell (movedBoard b ?m k) r (rookHome side) = None"
  proof (cases side)
    case Kingside
    from rook Kingside have rk: "cell b r 7 = Some rk" by (simp add: rookHome_def r_def)
    from empty Kingside have e: "cell b r 5 = None" "cell b r 6 = None"
      by (simp_all add: betweenCols_def r_def)
    from transit Kingside have t: "\<not> isSquareUnderAttack b r 5 ?opp" "\<not> isSquareUnderAttack b r 6 ?opp"
      by (simp_all add: transitCols_def r_def)
    from kingStep_kingside_safe[OF len r king(1)[folded r_def] rk rook(3) e a4 t] rk rook e king
    have "?m \<in> set (castleKingside b r 4 k)"
      by (simp add: castleKingside_iff castleMove_def Kingside)
    with king nocheck have gen: "?m \<in> set (getKingMoves b r 4 k)"
      by (intro castle_in_getKingMoves) simp_all
    from wouldBeInCheck_kingside_cells[OF len r rank] obtain x
      where wb: "wouldBeInCheck b (castleMove r Kingside) (Some co) = isInCheck x (Some co)"
        and xc: "\<And>r' c'. cell x r' c' =
              (if r' = r \<and> c' = 7 then None
               else if r' = r \<and> c' = 5 then Some rk
               else if r' = r \<and> c' = 4 then None
               else if r' = r \<and> c' = 6 then Some k
               else cell b r' c')"
      using rk king(1)[folded r_def] by auto
    from not_attacked_parts[OF t(2)] have "\<not> offRowAttack b r 6 ?opp" by simp
    from castled_kingside_safe[OF r xc king(2,3) rook(2,3) k4 kings this] wb
    have "\<not> wouldBeInCheck b ?m (pcolor k)" by (simp add: Kingside king)
    from king_valid_move[OF len r king(1)[folded r_def] king(2) gen this]
      movedBoard_kingside_cells[OF len r rk, of k]
    show ?thesis by (simp add: Kingside kingDest_def rookDest_def rookHome_def)
  next
    case Queenside
    from rook Queenside have rk: "cell b r 0 = Some rk" by (simp add: rookHome_def r_def)
    from empty Queenside have e: "cell b r 1 = None" "cell b r 2 = None" "cell b r 3 = None"
      by (simp_all add: betweenCols_def r_def)
    from transit Queenside have t: "\<not> isSquareUnderAttack b r 3 ?opp" "\<not> isSquareUnderAttack b r 2 ?opp"
      by (simp_all add: transitCols_def r_def)
    from kingStep_queenside_safe[OF len r king(1)[folded r_def] e a4 t] rk rook e king
    have "?m \<in> set (castleQueenside b r 4 k)"
      by (simp add: castleQueenside_iff castleMove_def Queenside)
    with king nocheck have gen: "?m \<in> set (getKingMoves b r 4 k)"
      by (intro castle_in_getKingMoves) simp_all
    from wouldBeInCheck_queenside_cells[OF len r rank] obtain x
      where wb: "wouldBeInCheck b (castleMove r Queenside) (Some co) = isInCheck x (Some co)"
        and xc: "\<And>r' c'. cell x r' c' =
              (if r' = r \<and> c' = 0 then None
               else if r' = r \<and> c' = 3 then Some rk
               else if r' = r \<and> c' = 4 then None
               else if r' = r \<and> c' = 2 then Some k
               else cell b r' c')"
      using rk king(1)[folded r_def] by auto
    from not_attacked_parts[OF t(2)] have "\<not> offRowAttack b r 2 ?opp" by simp
    from castled_queenside_safe[OF r xc king(2,3) rook(2,3) k4 kings e(1) this] wb
    have "\<not> wouldBeInCheck b ?m (pcolor k)" by (simp add: Queenside king)
    from king_valid_move[OF len r king(1)[folded r_def] king(2) gen this]
      movedBoard_queenside_cells[OF len r rk, of k]
    show ?thesis by (simp add: Queenside kingDest_def rookDest_def rookHome_def)
  qed
  with res show ?thesis unfolding r_def by blast
qed

theorem castling_offered_and_applied_witness:
  "wfBoard castleBoard \<and> cell castleBoard 7 4 = pc King White \<and> kingCount castleBoard White = 1 \<and>
   cell castleBoard 7 7 = pc Rook White \<and> cell castleBoard 7 0 = pc Rook White \<and>
   list_all (\<lambda>c. cell castleBoard 7 c = None) [1, 2, 3, 5, 6] \<and>
   \<not> isInCheck castleBoard (Some White) \<and>
   list_all (\<lambda>c. \<not> isSquareUnderAttack castleBoard 7 c (Some Black)) [2, 3, 5, 6] \<and>
   (\<exists>ms res nb. getValidMoves castleBoard 7 4 = Inr ms \<and> castleMove 7 Kingside \<in> set ms \<and>
      makeMove castleBoard (castleMove 7 Kingside) = Inr res \<and> valid res \<and> newBoard res = Some nb \<and>
      cell nb 7 6 = Some \<lparr>ptype = Some King, pcolor = Some White, hasMoved = True\<rparr> \<and>
      cell nb 7 5 = Some \<lparr>ptype = Some Rook, pcolor = Some White, hasMoved = True\<rparr> \<and>
      cell nb 7 4 = None \<and> cell nb 7 7 = None) \<and>
   (\<exists>ms res nb. getValidMoves castleBoard 7 4 = Inr ms \<and> castleMove 7 Queenside \<in> set ms \<and>
      makeMove castleBoard (castleMove 7 Queenside) = Inr res \<and> valid res \<and> newBoard res = Some nb \<and>
      cell nb 7 2 = Some \<lparr>ptype = Some King, pcolor = Some White, hasMoved = True\<rparr> \<and>
      cell nb 7 3 = Some \<lparr>ptype = Some Rook, pcolor = Some White, hasMoved = True\<rparr> \<and>
      cell nb 7 4 = None \<and> cell nb 7 0 = None)"
proof -
  have wf: "wfBoard castleBoard" by code_simp
  have k: "cell castleBoard 7 4 = pc King White" by code_simp
  have one: "kingCount castleBoard White = 1" by code_simp
  have rk: "cell castleBoard 7 7 = pc Rook White" "cell castleBoard 7 0 = pc Rook White"
    by code_simp+
  have e: "list_all (\<lambda>c. cell castleBoard 7 c = None) [1, 2, 3, 5, 6]" by code_simp
  have nc: "\<not> isInCheck castleBoard (Some White)" by code_simp
  have t: "list_all (\<lambda>c. \<not> isSquareUnderAttack castleBoard 7 c (Some Black)) [2, 3, 5, 6]"
    by code_simp
  have "\<exists>ms res nb. getValidMoves castleBoard 7 4 = Inr ms \<and> castleMove 7 Kingside \<in> set ms \<and>
      makeMove castleBoard (castleMove 7 Kingside) = Inr res \<and> valid res \<and> newBoard res = Some nb \<and>
      cell nb 7 6 = Some \<lparr>ptype = Some King, pcolor = Some White, hasMoved = True\<rparr> \<and>
      cell nb 7 5 = Some \<lparr>ptype = Some Rook, pcolor = Some White, hasMoved = True\<rparr> \<and>
      cell nb 7 4 = None \<and> cell nb 7 7 = None"
    using castling_offered_and_applied[of castleBoard White
        "\<lparr>ptype = Some King, pcolor = Some White, hasMoved = False\<rparr>" Kingside
        "\<lparr>ptype = Some Rook, pcolor = Some White, hasMoved = False\<rparr>"]
      wf k one rk e nc t
    by (simp add: backRank_def rookHome_def kingDest_def rookDest_def betweenCols_def
        transitCols_def pc_def opponentOf_def)
  moreover
  have "\<exists>ms res nb. getValidMoves castleBoard 7 4 = Inr ms \<and> castleMove 7 Queenside \<in> set ms \<and>
      makeMove castleBoard (castleMove 7 Queenside) = Inr res \<and> valid res \<and> newBoard res = Some nb \<and>
      cell nb 7 2 = Some \<lparr>ptype = Some King, pcolor = Some White, hasMoved = True\<rparr> \<and>
      cell nb 7 3 = Some \<lparr>ptype = Some Rook, pcolor = Some White, hasMoved = True\<rparr> \<and>
      cell nb 7 4 = None \<and> cell nb 7 0 = None"
    using castling_offered_and_applied[of castleBoard White
        "\<lparr>ptype = Some King, pcolor = Some White, hasMoved = False\<rparr>" Queenside
        "\<lparr>ptype = Some Rook, pcolor = Some White, hasMoved = False\<rparr>"]
      wf k one rk e nc t
    by (simp add: backRank_def rookHome_def kingDest_def rookDest_def betweenCols_def
        transitCols_def pc_def opponentOf_def)
  ultimately show ?thesis using wf k one rk e nc t by blast
qed

section \<open>The initial position\<close>

lemma initial_white_pawns_left:
  "map (getValidMoves initialBoard 6) [0, 1, 2, 3] =
     map (\<lambda>c. Inr [basicMove (6, c) (5, c), basicMove (6, c) (4, c)]) [0, 1, 2, 3]"
  by code_simp

lemma initial_white_pawns_right:
  "map (getValidMoves initialBoard 6) [4, 5, 6, 7] =
     map (\<lambda>c. Inr [basicMove (6, c) (5, c), basicMove (6, c) (4, c)]) [4, 5, 6, 7]"
  by code_simp

lemma initial_black_pawns:
  "map (getValidMoves initialBoard 1) [0, 1, 2, 3, 4, 5, 6, 7] =
     map (\<lambda>c. Inr [basicMove (1, c) (2, c), basicMove (1, c) (3, c)]) [0, 1, 2, 3, 4, 5, 6, 7]"
  by code_simp

lemma initial_knights:
  "map (\<lambda>(r, c). getValidMoves initialBoard r c) [(7, 1), (7, 6), (0, 1), (0, 6)] =
     [Inr [(basicMove (7, 1) (5, 0))\<lparr>isCapture := Some False\<rparr>,
           (basicMove (7, 1) (5, 2))\<lparr>isCapture := Some False\<rparr>],
      Inr [(basicMove (7, 6) (5, 5))\<lparr>isCapture := Some False\<rparr>,
           (basicMove (7, 6) (5, 7))\<lparr>isCapture := Some False\<rparr>],
      Inr [(basicMove (0, 1) (2, 0))\<lparr>isCapture := Some False\<rparr>,
           (basicMove (0, 1) (2, 2))\<lparr>isCapture := Some False\<rparr>],
      Inr [(basicMove (0, 6) (2, 5))\<lparr>isCapture := Some False\<rparr>,
           (basicMove (0, 6) (2, 7))\<lparr>isCapture := Some False\<rparr>]]"
  by code_simp

lemma initial_blocked_pieces:
  "map (\<lambda>(r, c). getValidMoves initialBoard r c)
     [(7, 0), (7, 2), (7, 3), (7, 4), (7, 5), (7, 7), (0, 0), (0, 2), (0, 3), (0, 4), (0, 5), (0, 7)] =
     replicate 12 (Inr [])"
  by code_simp

text \<open>
  Claim C4, as amended: in the initial position \<^verbatim>\<open>getValidMoves\<close> returns for every
  pawn its one-square and its two-square advance, for every knight its two jumps to the
  third rank, and the empty list for every rook, bishop, queen and king.
\<close>

theorem initial_position_moves:
  "map (getValidMoves initialBoard 6) [0, 1, 2, 3, 4, 5, 6, 7] =
     map (\<lambda>c. Inr [basicMove (6, c) (5, c), basicMove (6, c) (4, c)]) [0, 1, 2, 3, 4, 5, 6, 7] \<and>
   map (getValidMoves initialBoard 1) [0, 1, 2, 3, 4, 5, 6, 7] =
     map (\<lambda>c. Inr [basicMove (1, c) (2, c), basicMove (1, c) (3, c)]) [0, 1, 2, 3, 4, 5, 6, 7] \<and>
   map (\<lambda>(r, c). getValidMoves initialBoard r c) [(7, 1), (7, 6), (0, 1), (0, 6)] =
     [Inr [(basicMove (7, 1) (5, 0))\<lparr>isCapture := Some False\<rparr>,
           (basicMove (7, 1) (5, 2))\<lparr>isCapture := Some False\<rparr>],
      Inr [(basicMove (7, 6) (5, 5))\<lparr>isCapture := Some False\<rparr>,
           (basicMove (7, 6) (5, 7))\<lparr>isCapture := Some False\<rparr>],
      Inr [(basicMove (0, 1) (2, 0))\<lparr>isCapture := Some False\<rparr>,
           (basicMove (0, 1) (2, 2))\<lparr>isCapture := Some False\<rparr>],
      Inr [(basicMove (0, 6) (2, 5))\<lparr>isCapture := Some False\<rparr>,
           (basicMove (0, 6) (2, 7))\<lparr>isCapture := Some False\<rparr>]] \<and>
   map (\<lambda>(r, c). getValidMoves initialBoard r c)
     [(7, 0), (7, 2), (7, 3), (7, 4), (7, 5), (7, 7), (0, 0), (0, 2), (0, 3), (0, 4), (0, 5), (0, 7)] =
     replicate 12 (Inr [])"
proof -
  have split: "\<And>f :: int \<Rightarrow> jsError + chessMove list.
      map f [0, 1, 2, 3, 4, 5, 6, 7] = map f [0, 1, 2, 3] @ map f [4, 5, 6, 7]"
    by simp
  have "map (getValidMoves initialBoard 6) [0, 1, 2, 3, 4, 5, 6, 7] =
     map (\<lambda>c. Inr [basicMove (6, c) (5, c), basicMove (6, c) (4, c)]) [0, 1, 2, 3, 4, 5, 6, 7]"
    by (simp only: split initial_white_pawns_left initial_white_pawns_right)
  with initial_black_pawns initial_knights initial_blocked_pieces show ?thesis
    by (intro conjI)
qed

text \<open>
  The claim as stated, no move for any piece but the pawns, fails at the knights: the
  knight of b1 has two moves.
\<close>

theorem initial_knight_has_moves:
  "hasPiece initialBoard 7 1 Knight (Some White) \<and>
   getValidMoves initialBoard 7 1 =
     Inr [(basicMove (7, 1) (5, 0))\<lparr>isCapture := Some False\<rparr>,
          (basicMove (7, 1) (5, 2))\<lparr>isCapture := Some False\<rparr>]"
proof -
  have "hasPiece initialBoard 7 1 Knight (Some White)" by code_simp
  with initial_knights show ?thesis by simp
qed

end
